theory Spec2Isabelle
  imports Main "HOL-Library.List_Lexorder" "HOL-Library.Char_ord"
begin

section \<open>Operational transformation: \<open>pkg/ot/operation.go\<close>\<close>

text \<open>
  Go strings are byte sequences and \<open>len\<close> counts bytes, so a Go \<open>string\<close> is a
  \<^typ>\<open>string\<close> (a list of 8-bit characters). Comparing two Go strings with \<open><\<close> is
  the bytewise lexicographic order, which is the order of \<open>List_Lexorder\<close> over
  \<open>Char_ord\<close>.

  Go's \<open>int\<close> has 64 bits and is modelled by \<^typ>\<open>int\<close>. \<open>GenerateOperation\<close> and the
  transform functions add and subtract lengths of strings and positions of operations
  valid on one content, which stay below \<open>2^63\<close>; their sums are written without
  wrap-around. \<open>Apply\<close> is handed operations from any caller and adds a position and a
  length of any value: there the wrap-around is written out (\<open>add64\<close>).

  A run-time panic (a slice or index expression out of range) is the outcome
  \<open>Panics\<close>; a normal return is \<open>Returns\<close>.
\<close>

datatype 'a outcome = Panics | Returns 'a

fun bind :: "'a outcome \<Rightarrow> ('a \<Rightarrow> 'b outcome) \<Rightarrow> 'b outcome" where
  "bind Panics f = Panics"
| "bind (Returns x) f = f x"

text \<open>\<open>s[lo:hi]\<close> panics unless \<open>0 \<le> lo \<le> hi \<le> len(s)\<close>; \<open>s[i]\<close> panics unless
  \<open>0 \<le> i < len(s)\<close>.\<close>

definition slice :: "string \<Rightarrow> int \<Rightarrow> int \<Rightarrow> string outcome" where
  "slice s lo hi =
     (if 0 \<le> lo \<and> lo \<le> hi \<and> hi \<le> int (length s)
      then Returns (take (nat (hi - lo)) (drop (nat lo) s))
      else Panics)"

definition byteAt :: "string \<Rightarrow> nat \<Rightarrow> char outcome" where
  "byteAt s i = (if i < length s then Returns (s ! i) else Panics)"

datatype OpType = OpInsert | OpDelete | OpRetain

record Operation =
  Type :: OpType
  Position :: int
  Content :: string
  Length :: int
  ClientID :: string
  Version :: int

record Document =
  Content :: string
  Version :: int
  PendingOps :: "Operation list"
  AcknowledgedOps :: "Operation list"

definition NewDocument :: Document where
  "NewDocument =
     \<lparr>Document.Content = [], Document.Version = 0, PendingOps = [], AcknowledgedOps = []\<rparr>"

subsection \<open>Transform\<close>

definition transformInsertInsert :: "Operation \<Rightarrow> Operation \<Rightarrow> Operation \<times> Operation" where
  "transformInsertInsert op1 op2 =
     (if Position op1 < Position op2 then
        (op1, op2\<lparr>Position := Position op2 + int (length (Operation.Content op1))\<rparr>)
      else if Position op1 > Position op2 then
        (op1\<lparr>Position := Position op1 + int (length (Operation.Content op2))\<rparr>, op2)
      else if ClientID op1 < ClientID op2 then
        (op1, op2\<lparr>Position := Position op2 + int (length (Operation.Content op1))\<rparr>)
      else
        (op1\<lparr>Position := Position op1 + int (length (Operation.Content op2))\<rparr>, op2))"

definition transformInsertDelete :: "Operation \<Rightarrow> Operation \<Rightarrow> Operation \<times> Operation" where
  "transformInsertDelete ins del =
     (if Position ins \<le> Position del then
        (ins, del\<lparr>Position := Position del + int (length (Operation.Content ins))\<rparr>)
      else if Position ins \<ge> Position del + Length del then
        (ins\<lparr>Position := Position ins - Length del\<rparr>, del)
      else
        (ins\<lparr>Position := Position del\<rparr>, del))"

definition transformDeleteDelete :: "Operation \<Rightarrow> Operation \<Rightarrow> Operation \<times> Operation" where
  "transformDeleteDelete op1 op2 =
     (if Position op1 + Length op1 \<le> Position op2 then
        (op1, op2\<lparr>Position := Position op2 - Length op1\<rparr>)
      else if Position op2 + Length op2 \<le> Position op1 then
        (op1\<lparr>Position := Position op1 - Length op2\<rparr>, op2)
      else if Position op1 < Position op2 then
        (let overlap = (Position op1 + Length op1) - Position op2 in
         (op1\<lparr>Length := Length op1 - overlap\<rparr>,
          op2\<lparr>Position := Position op1, Length := Length op2 - overlap\<rparr>))
      else
        (let overlap = (Position op2 + Length op2) - Position op1 in
         (op1\<lparr>Position := Position op2, Length := Length op1 - overlap\<rparr>,
          op2\<lparr>Length := Length op2 - overlap\<rparr>)))"

text \<open>In the Delete/Insert case the source calls \<open>transformInsertDelete(op2, op1)\<close> and
  assigns the pair to \<open>op2Prime, op1Prime\<close>. Every pair with a Retain is returned as
  it came.\<close>

definition Transform :: "Operation \<Rightarrow> Operation \<Rightarrow> Operation \<times> Operation" where
  "Transform op1 op2 =
     (case Type op1 of
        OpInsert \<Rightarrow>
          (case Type op2 of
             OpInsert \<Rightarrow> transformInsertInsert op1 op2
           | OpDelete \<Rightarrow> transformInsertDelete op1 op2
           | OpRetain \<Rightarrow> (op1, op2))
      | OpDelete \<Rightarrow>
          (case Type op2 of
             OpInsert \<Rightarrow> (let (op2Prime, op1Prime) = transformInsertDelete op2 op1
                          in (op1Prime, op2Prime))
           | OpDelete \<Rightarrow> transformDeleteDelete op1 op2
           | OpRetain \<Rightarrow> (op1, op2))
      | OpRetain \<Rightarrow> (op1, op2))"

subsection \<open>Apply\<close>

text \<open>The two errors \<open>Apply\<close> returns; the arguments are the numbers its message
  prints.\<close>

datatype error =
  InvalidInsertPosition int int
| InvalidDeleteRange int int int

text \<open>\<open>Apply\<close> mutates the document behind the pointer and returns an error or
  \<open>nil\<close>: the model returns the document after the call together with the error.
  The two checks come before any assignment. A Retain matches no case of the
  \<open>switch\<close> and goes on to the version increment and the append.\<close>

definition acknowledge :: "Document \<Rightarrow> Operation \<Rightarrow> Document" where
  "acknowledge d op =
     d\<lparr>Document.Version := Document.Version d + 1,
       AcknowledgedOps := AcknowledgedOps d @ [op]\<rparr>"

text \<open>
  \<open>op.Position+op.Length\<close> is a 64-bit sum: it wraps when it leaves the range, so
  that \<open>MaxInt64 + 1\<close> is \<open>MinInt64\<close>. \<open>len(d.Content)\<close> is an \<open>int\<close>, so every Go
  content has fewer than \<open>2^63\<close> bytes. A list of \<open>2^63\<close> characters or more is no Go
  string; for it the sum is left as it is, so that a statement about all lists needs no
  bound on their length.
\<close>

definition add64 :: "int \<Rightarrow> int \<Rightarrow> int" where
  "add64 x y = (x + y + 2 ^ 63) mod 2 ^ 64 - 2 ^ 63"

definition Apply :: "Document \<Rightarrow> Operation \<Rightarrow> (Document \<times> error option) outcome" where
  "Apply d op =
     (let n = int (length (Document.Content d)) in
      case Type op of
        OpInsert \<Rightarrow>
          if Position op < 0 \<or> Position op > n then
            Returns (d, Some (InvalidInsertPosition (Position op) n))
          else
            bind (slice (Document.Content d) 0 (Position op)) (\<lambda>pre.
            bind (slice (Document.Content d) (Position op) n) (\<lambda>post.
            Returns (acknowledge (d\<lparr>Document.Content := pre @ Operation.Content op @ post\<rparr>) op,
                     None)))
      | OpDelete \<Rightarrow>
          (let stop = (if n < 2 ^ 63 then add64 (Position op) (Length op)
                       else Position op + Length op) in
           if Position op < 0 \<or> stop > n then
             Returns (d, Some (InvalidDeleteRange (Position op) stop n))
           else
             bind (slice (Document.Content d) 0 (Position op)) (\<lambda>pre.
             bind (slice (Document.Content d) stop n) (\<lambda>post.
             Returns (acknowledge (d\<lparr>Document.Content := pre @ post\<rparr>) op, None))))
      | OpRetain \<Rightarrow> Returns (acknowledge d op, None))"

subsection \<open>TransformAgainstHistory\<close>

text \<open>The loop ranges over \<open>d.PendingOps\<close>; the comparison is with the client of the
  operation passed in, not of the running result (the two agree, since \<open>Transform\<close>
  never changes a client identifier).\<close>

fun historyLoop :: "Operation \<Rightarrow> Operation \<Rightarrow> Operation list \<Rightarrow> Operation" where
  "historyLoop op transformed [] = transformed"
| "historyLoop op transformed (histOp # rest) =
     historyLoop op
       (if ClientID histOp \<noteq> ClientID op then fst (Transform transformed histOp)
        else transformed)
       rest"

definition TransformAgainstHistory :: "Document \<Rightarrow> Operation \<Rightarrow> Operation" where
  "TransformAgainstHistory d op = historyLoop op op (PendingOps d)"

subsection \<open>GenerateOperation\<close>

text \<open>The two scanning loops return from inside the loop at the first index where the
  bytes differ; \<open>None\<close> is the loop running to its end. The insertion loop is bounded
  by both lengths, the deletion loop by \<open>newLen\<close> only.\<close>

function insertScan :: "string \<Rightarrow> string \<Rightarrow> nat \<Rightarrow> nat option outcome" where
  "insertScan oldContent newContent i =
     (if i < length oldContent \<and> i < length newContent then
        bind (byteAt oldContent i) (\<lambda>x.
        bind (byteAt newContent i) (\<lambda>y.
        if x \<noteq> y then Returns (Some i) else insertScan oldContent newContent (Suc i)))
      else Returns None)"
  by pat_completeness auto
termination
  by (relation "measure (\<lambda>(oldContent, newContent, i). length oldContent - i)") auto

function deleteScan :: "string \<Rightarrow> string \<Rightarrow> nat \<Rightarrow> nat option outcome" where
  "deleteScan oldContent newContent i =
     (if i < length newContent then
        bind (byteAt oldContent i) (\<lambda>x.
        bind (byteAt newContent i) (\<lambda>y.
        if x \<noteq> y then Returns (Some i) else deleteScan oldContent newContent (Suc i)))
      else Returns None)"
  by pat_completeness auto
termination
  by (relation "measure (\<lambda>(oldContent, newContent, i). length newContent - i)") auto

text \<open>Fields the composite literal leaves out are Go's zero values. The \<open>position\<close>
  parameter is never read.\<close>

definition GenerateOperation :: "string \<Rightarrow> string \<Rightarrow> int \<Rightarrow> string \<Rightarrow> Operation outcome" where
  "GenerateOperation oldContent newContent position clientID =
     (let oldLen = int (length oldContent); newLen = int (length newContent) in
      if newLen > oldLen then
        (let insertLen = newLen - oldLen in
         bind (insertScan oldContent newContent 0) (\<lambda>r.
         case r of
           Some i \<Rightarrow>
             bind (slice newContent (int i) (int i + insertLen)) (\<lambda>c.
             Returns \<lparr>Type = OpInsert, Position = int i, Operation.Content = c, Length = 0,
                      ClientID = clientID, Operation.Version = 0\<rparr>)
         | None \<Rightarrow>
             bind (slice newContent oldLen newLen) (\<lambda>c.
             Returns \<lparr>Type = OpInsert, Position = oldLen, Operation.Content = c, Length = 0,
                      ClientID = clientID, Operation.Version = 0\<rparr>)))
      else if oldLen > newLen then
        (let deleteLen = oldLen - newLen in
         bind (deleteScan oldContent newContent 0) (\<lambda>r.
         case r of
           Some i \<Rightarrow>
             Returns \<lparr>Type = OpDelete, Position = int i, Operation.Content = [],
                      Length = deleteLen, ClientID = clientID, Operation.Version = 0\<rparr>
         | None \<Rightarrow>
             Returns \<lparr>Type = OpDelete, Position = newLen, Operation.Content = [],
                      Length = deleteLen, ClientID = clientID, Operation.Version = 0\<rparr>))
      else
        Returns \<lparr>Type = OpRetain, Position = 0, Operation.Content = [], Length = 0,
                 ClientID = [], Operation.Version = 0\<rparr>)"

section \<open>The document engine: \<open>internal/editor/ot_manager.go\<close>\<close>

record OTManager =
  document :: Document
  pendingOps :: "Operation list"
  lastContent :: string
  documentID :: string

definition NewOTManager :: "string \<Rightarrow> OTManager" where
  "NewOTManager docID =
     \<lparr>document = NewDocument, pendingOps = [], lastContent = [], documentID = docID\<rparr>"

text \<open>\<open>ProcessTextUpdate\<close> returns \<open>(content, version, err)\<close> and mutates the manager;
  the model returns the manager after the call and the triple. Its first half, up to
  the operation handed to \<open>Apply\<close>, is \<open>rebasedOperation\<close>.\<close>

definition rebasedOperation :: "OTManager \<Rightarrow> string \<Rightarrow> string \<Rightarrow> int \<Rightarrow> Operation outcome" where
  "rebasedOperation m clientID newContent clientVersion =
     bind (GenerateOperation (lastContent m) newContent 0 clientID) (\<lambda>op0.
     let op1 = op0\<lparr>Operation.Version := clientVersion\<rparr>
     in Returns (if clientVersion < Document.Version (document m)
                 then TransformAgainstHistory (document m) op1 else op1))"

definition ProcessTextUpdate ::
  "OTManager \<Rightarrow> string \<Rightarrow> string \<Rightarrow> int \<Rightarrow> (OTManager \<times> string \<times> int \<times> error option) outcome"
where
  "ProcessTextUpdate m clientID newContent clientVersion =
     bind (rebasedOperation m clientID newContent clientVersion) (\<lambda>op.
     bind (Apply (document m) op) (\<lambda>(d, err).
     case err of
       Some e \<Rightarrow>
         Returns (m\<lparr>document := d\<rparr>, Document.Content d, Document.Version d, Some e)
     | None \<Rightarrow>
         Returns (m\<lparr>document := d, lastContent := Document.Content d\<rparr>,
                  Document.Content d, Document.Version d, None)))"

text \<open>\<open>GetDocument\<close> of the manager.\<close>

definition GetDocument :: "OTManager \<Rightarrow> string \<times> int" where
  "GetDocument m = (Document.Content (document m), Document.Version (document m))"

section \<open>Running several calls\<close>

text \<open>A sequence of \<open>Apply\<close> calls on one document, stopping at the first error or
  panic, and the content it leaves when every call succeeded.\<close>

fun ApplyAll :: "Document \<Rightarrow> Operation list \<Rightarrow> (Document \<times> error option) outcome" where
  "ApplyAll d [] = Returns (d, None)"
| "ApplyAll d (op # ops) =
     bind (Apply d op) (\<lambda>(d', err).
     case err of Some e \<Rightarrow> Returns (d', Some e) | None \<Rightarrow> ApplyAll d' ops)"

fun contentAfter :: "(Document \<times> error option) outcome \<Rightarrow> string option" where
  "contentAfter (Returns (d, None)) = Some (Document.Content d)"
| "contentAfter (Returns (d, Some e)) = None"
| "contentAfter Panics = None"

fun nonRetainCount :: "Operation list \<Rightarrow> nat" where
  "nonRetainCount [] = 0"
| "nonRetainCount (op # ops) =
     (if Type op = OpRetain then nonRetainCount ops else Suc (nonRetainCount ops))"

text \<open>The three shapes of an operation, and a document holding a given content, for
  writing concrete cases.\<close>

definition InsertOp :: "int \<Rightarrow> string \<Rightarrow> string \<Rightarrow> int \<Rightarrow> Operation" where
  "InsertOp p t c v =
     \<lparr>Type = OpInsert, Position = p, Operation.Content = t, Length = 0, ClientID = c,
      Operation.Version = v\<rparr>"

definition DeleteOp :: "int \<Rightarrow> int \<Rightarrow> string \<Rightarrow> int \<Rightarrow> Operation" where
  "DeleteOp p n c v =
     \<lparr>Type = OpDelete, Position = p, Operation.Content = [], Length = n, ClientID = c,
      Operation.Version = v\<rparr>"

definition RetainOp :: "int \<Rightarrow> Operation" where
  "RetainOp v =
     \<lparr>Type = OpRetain, Position = 0, Operation.Content = [], Length = 0, ClientID = [],
      Operation.Version = v\<rparr>"

definition documentWith :: "string \<Rightarrow> Document" where
  "documentWith s = NewDocument\<lparr>Document.Content := s\<rparr>"

text \<open>
  The rebase as the specification words it: against every history entry whose
  originator differs, in application order, the history being the acknowledged
  operations.
\<close>

definition rebaseAgainstAcknowledged :: "Document \<Rightarrow> Operation \<Rightarrow> Operation" where
  "rebaseAgainstAcknowledged d op = historyLoop op op (AcknowledgedOps d)"

text \<open>A sequence of \<open>ProcessTextUpdate\<close> calls, each given as client, content and
  client version.\<close>

fun ProcessAll :: "OTManager \<Rightarrow> (string \<times> string \<times> int) list \<Rightarrow> OTManager outcome" where
  "ProcessAll m [] = Returns m"
| "ProcessAll m ((clientID, newContent, clientVersion) # rest) =
     bind (ProcessTextUpdate m clientID newContent clientVersion) (\<lambda>(m', r). ProcessAll m' rest)"

text \<open>The manager after client \<open>a\<close> has sent \<open>o\<close> and then \<open>ko\<close>.\<close>

definition lateManager :: OTManager where
  "lateManager =
     \<lparr>document =
        \<lparr>Document.Content = ''ko'', Document.Version = 2, PendingOps = [],
         AcknowledgedOps = [InsertOp 0 ''o'' ''a'' 0, InsertOp 0 ''k'' ''a'' 1]\<rparr>,
      pendingOps = [], lastContent = ''ko'', documentID = ''d''\<rparr>"

section \<open>The hub: \<open>internal/editor/hub.go\<close>\<close>

text \<open>
  The envelope. Its fields carry the prefix \<open>msg\<close>, since \<open>Type\<close>, \<open>Content\<close>,
  \<open>Position\<close>, \<open>ClientID\<close> and \<open>Version\<close> are fields of \<open>Operation\<close> already; \<open>Data\<close>
  is kept as its JSON text.
\<close>

record Message =
  msgType :: string
  msgContent :: string
  msgPosition :: int
  msgClientID :: string
  msgDocumentID :: string
  msgVersion :: int
  msgData :: string

text \<open>
  A buffered channel of frames: the queued frames, oldest first, the capacity given
  to \<open>make\<close> (256 in \<open>NewClient\<close>) and whether it was closed. The hub runs in one
  goroutine and handles one request at a time, so a broadcast is a function of the
  state it starts in; a writer draining a buffer meanwhile only makes room.
\<close>

record Chan =
  buffer :: "string list"
  capacity :: nat
  closed :: bool

text \<open>The fields of \<open>Client\<close> the hub reads. \<open>id\<close> is a constant of HOL, hence
  \<open>clientId\<close>.\<close>

record Client =
  clientId :: string
  clientDocumentID :: string
  send :: Chan

text \<open>
  The hub's maps have \<open>*Client\<close> keys: a client is an address (a \<^typ>\<open>nat\<close>) and
  \<open>store\<close> holds the object behind each address. A Go map with \<open>bool\<close> values that
  are always \<open>true\<close> is the list of its keys, in the order a \<open>range\<close> over it visits
  them, which Go leaves unspecified: the theorems hold for every order.
\<close>

record Hub =
  clients :: "nat list"
  documentClients :: "string \<Rightarrow> nat list option"
  store :: "nat \<Rightarrow> Client"

text \<open>
  \<open>select { case ch <- message: ... default: ... }\<close>: a send on a closed channel
  panics; otherwise the frame is queued when the buffer has room (\<open>Some\<close>), and the
  \<open>default\<close> branch is taken when it is full (\<open>None\<close>). \<open>close\<close> of a closed channel
  panics.
\<close>

definition trySend :: "Chan \<Rightarrow> string \<Rightarrow> Chan option outcome" where
  "trySend ch message =
     (if closed ch then Panics
      else if length (buffer ch) < capacity ch
      then Returns (Some (ch\<lparr>buffer := buffer ch @ [message]\<rparr>))
      else Returns None)"

definition closeChan :: "Chan \<Rightarrow> Chan outcome" where
  "closeChan ch = (if closed ch then Panics else Returns (ch\<lparr>closed := True\<rparr>))"

definition setSend :: "Hub \<Rightarrow> nat \<Rightarrow> Chan \<Rightarrow> Hub" where
  "setSend h c ch = h\<lparr>store := (store h)(c := (store h c)\<lparr>send := ch\<rparr>)\<rparr>"

text \<open>
  The loop of \<open>broadcastToDocument\<close> over the clients of the document. \<open>clients\<close>
  in the source is the inner map itself, so \<open>delete(clients, client)\<close> removes the
  client from \<open>h.documentClients[docID]\<close>.
\<close>

fun documentLoop :: "string \<Rightarrow> string \<Rightarrow> string \<Rightarrow> nat list \<Rightarrow> Hub \<Rightarrow> Hub outcome" where
  "documentLoop docID message excludeClientID [] h = Returns h"
| "documentLoop docID message excludeClientID (client # rest) h =
     (if clientId (store h client) \<noteq> excludeClientID then
        bind (trySend (send (store h client)) message) (\<lambda>sent.
        case sent of
          Some ch \<Rightarrow> documentLoop docID message excludeClientID rest (setSend h client ch)
        | None \<Rightarrow>
            bind (closeChan (send (store h client))) (\<lambda>ch.
            documentLoop docID message excludeClientID rest
              ((setSend h client ch)
                 \<lparr>clients := removeAll client (clients h),
                  documentClients := (documentClients h)
                    (docID := map_option (removeAll client) (documentClients h docID))\<rparr>)))
      else documentLoop docID message excludeClientID rest h)"

definition broadcastToDocument :: "Hub \<Rightarrow> string \<Rightarrow> string \<Rightarrow> string \<Rightarrow> Hub outcome" where
  "broadcastToDocument h docID message excludeClientID =
     (case documentClients h docID of
        None \<Rightarrow> Returns h
      | Some cs \<Rightarrow> documentLoop docID message excludeClientID cs h)"

fun allLoop :: "string \<Rightarrow> string \<Rightarrow> nat list \<Rightarrow> Hub \<Rightarrow> Hub outcome" where
  "allLoop message excludeClientID [] h = Returns h"
| "allLoop message excludeClientID (client # rest) h =
     (if clientId (store h client) \<noteq> excludeClientID then
        bind (trySend (send (store h client)) message) (\<lambda>sent.
        case sent of
          Some ch \<Rightarrow> allLoop message excludeClientID rest (setSend h client ch)
        | None \<Rightarrow>
            bind (closeChan (send (store h client))) (\<lambda>ch.
            allLoop message excludeClientID rest
              ((setSend h client ch)\<lparr>clients := removeAll client (clients h)\<rparr>)))
      else allLoop message excludeClientID rest h)"

definition broadcastToAll :: "Hub \<Rightarrow> string \<Rightarrow> string \<Rightarrow> Hub outcome" where
  "broadcastToAll h message excludeClientID = allLoop message excludeClientID (clients h) h"

text \<open>
  \<open>handleBroadcast\<close> decodes the frame with \<open>json.Unmarshal\<close>, which is library code:
  the decoder is a parameter, \<open>None\<close> being a frame it rejects. The frame queued for
  the recipients is the undecoded one.
\<close>

definition handleBroadcast :: "(string \<Rightarrow> Message option) \<Rightarrow> Hub \<Rightarrow> string \<Rightarrow> Hub outcome" where
  "handleBroadcast unmarshal h message =
     (case unmarshal message of
        None \<Rightarrow> Returns h
      | Some msg \<Rightarrow>
          if msgType msg = ''text_update'' \<or> msgType msg = ''cursor_position'' \<or>
             msgType msg = ''selection''
          then broadcastToDocument h (msgDocumentID msg) message (msgClientID msg)
          else if msgType msg = ''broadcast_all''
          then broadcastToAll h message (msgClientID msg)
          else if msgDocumentID msg \<noteq> []
          then broadcastToDocument h (msgDocumentID msg) message (msgClientID msg)
          else Returns h)"

text \<open>\<open>processMessage\<close> overwrites the client and document identifiers of every
  decoded frame with those of the connection it arrived on, before any handler runs.\<close>

definition stamp :: "Client \<Rightarrow> Message \<Rightarrow> Message" where
  "stamp c msg = msg\<lparr>msgClientID := clientId c, msgDocumentID := clientDocumentID c\<rparr>"

text \<open>A hub with two clients on document \<open>d\<close>, at addresses 1 and 2, and a decoder
  that reads every frame as a text update sent by the first.\<close>

definition emptyChan :: Chan where
  "emptyChan = \<lparr>buffer = [], capacity = 256, closed = False\<rparr>"

definition twoClients :: Hub where
  "twoClients =
     \<lparr>clients = [1, 2],
      documentClients = (\<lambda>docID. if docID = ''d'' then Some [1, 2] else None),
      store = (\<lambda>p. if p = 1
                     then \<lparr>clientId = ''aaaa1111'', clientDocumentID = ''d'', send = emptyChan\<rparr>
                     else \<lparr>clientId = ''bbbb2222'', clientDocumentID = ''d'', send = emptyChan\<rparr>)\<rparr>"

definition textUpdateFromFirst :: Message where
  "textUpdateFromFirst =
     \<lparr>msgType = ''text_update'', msgContent = ''hello'', msgPosition = 0,
      msgClientID = ''aaaa1111'', msgDocumentID = ''d'', msgVersion = 1, msgData = []\<rparr>"

section \<open>Basic facts about \<open>Apply\<close>\<close>

lemma slice_prefix:
  "0 \<le> p \<Longrightarrow> p \<le> int (length s) \<Longrightarrow> slice s 0 p = Returns (take (nat p) s)"
  by (simp add: slice_def)

lemma slice_suffix:
  "0 \<le> p \<Longrightarrow> p \<le> int (length s) \<Longrightarrow> slice s p (int (length s)) = Returns (drop (nat p) s)"
  by (simp add: slice_def)

lemma Apply_insert_ok:
  "Type op = OpInsert \<Longrightarrow> 0 \<le> Position op \<Longrightarrow>
   Position op \<le> int (length (Document.Content d)) \<Longrightarrow>
   Apply d op = Returns (acknowledge (d\<lparr>Document.Content :=
       take (nat (Position op)) (Document.Content d) @ Operation.Content op @
       drop (nat (Position op)) (Document.Content d)\<rparr>) op, None)"
  by (simp add: Apply_def Let_def slice_prefix slice_suffix)

lemma add64_in_range: "- (2 ^ 63) \<le> x + y \<Longrightarrow> x + y < 2 ^ 63 \<Longrightarrow> add64 x y = x + y"
  by (simp add: add64_def)

lemma Apply_delete_ok:
  assumes "Type op = OpDelete" "0 \<le> Position op" "0 \<le> Length op"
    and "Position op + Length op \<le> int (length (Document.Content d))"
  shows "Apply d op = Returns (acknowledge (d\<lparr>Document.Content :=
       take (nat (Position op)) (Document.Content d) @
       drop (nat (Position op + Length op)) (Document.Content d)\<rparr>) op, None)"
proof -
  let ?n = "int (length (Document.Content d))"
  have stop: "(if ?n < 2 ^ 63 then add64 (Position op) (Length op)
               else Position op + Length op) = Position op + Length op"
    using assms by (simp add: add64_in_range)
  have "Position op \<le> ?n"
    using assms by simp
  with assms show ?thesis
    unfolding Apply_def Let_def stop by (simp add: slice_prefix slice_suffix)
qed

lemma Apply_retain: "Type op = OpRetain \<Longrightarrow> Apply d op = Returns (acknowledge d op, None)"
  by (simp add: Apply_def)

lemma Apply_error_unchanged: "Apply d op = Returns (d', Some e) \<Longrightarrow> d' = d"
  by (cases "Type op") (auto simp: Apply_def Let_def slice_def split: if_splits)

lemma Apply_version:
  "Apply d op = Returns (d', None) \<Longrightarrow>
   Document.Version d' = Document.Version d + 1 \<and>
   AcknowledgedOps d' = AcknowledgedOps d @ [op]"
  by (cases "Type op") (auto simp: Apply_def Let_def slice_def acknowledge_def split: if_splits)

lemma ApplyAll_version:
  "ApplyAll d ops = Returns (d', None) \<Longrightarrow>
   Document.Version d' = Document.Version d + int (length ops) \<and>
   AcknowledgedOps d' = AcknowledgedOps d @ ops"
proof (induction ops arbitrary: d)
  case Nil
  then show ?case by simp
next
  case (Cons op ops)
  from Cons.prems obtain d1 where a: "Apply d op = Returns (d1, None)"
    and r: "ApplyAll d1 ops = Returns (d', None)"
    by (cases "Apply d op") (auto split: option.splits)
  from Apply_version [OF a] Cons.IH [OF r] show ?case by simp
qed

lemma ApplyAll_two:
  "Apply d x = Returns (d1, None) \<Longrightarrow> Apply d1 y = Returns (d2, None) \<Longrightarrow>
   contentAfter (ApplyAll d [x, y]) = Some (Document.Content d2)"
  by simp

section \<open>The version counter\<close>

text \<open>
  C3, as stated, fails: the claim has a Retain leave the version unchanged, so that the
  version counts the non-Retain operations. \<open>Apply\<close> increments the version after the
  \<open>switch\<close> for every operation that did not return an error. On a fresh document one
  Retain gives version 1 with no non-Retain operation applied.
\<close>

theorem retain_increments_version:
  "Apply NewDocument (RetainOp 0) =
     Returns (\<lparr>Document.Content = [], Document.Version = 1, PendingOps = [],
               AcknowledgedOps = [RetainOp 0]\<rparr>, None)
   \<and> nonRetainCount [RetainOp 0] = 0"
  by (simp add: Apply_def NewDocument_def acknowledge_def RetainOp_def)

text \<open>
  C3, amended: the version of a document equals the number of operations applied to it
  since creation, Retain included. A fresh document has version 0; a run of successful
  applies from it ends with the version equal to the length of the run, and the
  acknowledged list equal to the run; every successful apply increments the version by
  exactly one; a Retain always succeeds, increments the version and leaves the content
  as it was.
\<close>

theorem version_counts_applied_operations:
  "Document.Version NewDocument = 0
   \<and> (ApplyAll NewDocument ops = Returns (d, None) \<longrightarrow>
        Document.Version d = int (length ops) \<and> AcknowledgedOps d = ops)
   \<and> (Apply d0 op = Returns (d1, None) \<longrightarrow> Document.Version d1 = Document.Version d0 + 1)
   \<and> (Type r = OpRetain \<longrightarrow>
        Apply d0 r = Returns (d0\<lparr>Document.Version := Document.Version d0 + 1,
                                 AcknowledgedOps := AcknowledgedOps d0 @ [r]\<rparr>, None))"
proof -
  have "ApplyAll NewDocument ops = Returns (d, None) \<Longrightarrow>
        Document.Version d = int (length ops) \<and> AcknowledgedOps d = ops"
    using ApplyAll_version [of NewDocument ops d] by (simp add: NewDocument_def)
  moreover have "Apply d0 op = Returns (d1, None) \<Longrightarrow>
        Document.Version d1 = Document.Version d0 + 1"
    using Apply_version by blast
  moreover have "Type r = OpRetain \<Longrightarrow>
        Apply d0 r = Returns (d0\<lparr>Document.Version := Document.Version d0 + 1,
                                 AcknowledgedOps := AcknowledgedOps d0 @ [r]\<rparr>, None)"
    by (simp add: Apply_retain acknowledge_def)
  ultimately show ?thesis by (simp add: NewDocument_def)
qed

lemma example_run:
  "ApplyAll NewDocument [InsertOp 0 ''hi'' ''a'' 0, RetainOp 1, DeleteOp 0 1 ''b'' 2] =
     Returns (\<lparr>Document.Content = ''i'', Document.Version = 3, PendingOps = [],
               AcknowledgedOps = [InsertOp 0 ''hi'' ''a'' 0, RetainOp 1, DeleteOp 0 1 ''b'' 2]\<rparr>,
              None)"
  by (simp add: Apply_def add64_def NewDocument_def acknowledge_def InsertOp_def RetainOp_def
      DeleteOp_def slice_def Let_def)

lemma example_apply:
  "Apply (documentWith ''hi'') (DeleteOp 0 1 ''b'' 2) =
     Returns (\<lparr>Document.Content = ''i'', Document.Version = 1, PendingOps = [],
               AcknowledgedOps = [DeleteOp 0 1 ''b'' 2]\<rparr>, None)"
  by (simp add: Apply_def add64_def NewDocument_def documentWith_def acknowledge_def
      DeleteOp_def slice_def Let_def)

theorem version_counts_applied_operations_witness:
  "ApplyAll NewDocument [InsertOp 0 ''hi'' ''a'' 0, RetainOp 1, DeleteOp 0 1 ''b'' 2] =
     Returns (\<lparr>Document.Content = ''i'', Document.Version = 3, PendingOps = [],
               AcknowledgedOps = [InsertOp 0 ''hi'' ''a'' 0, RetainOp 1, DeleteOp 0 1 ''b'' 2]\<rparr>,
              None)
   \<and> Apply (documentWith ''hi'') (DeleteOp 0 1 ''b'' 2) =
     Returns (\<lparr>Document.Content = ''i'', Document.Version = 1, PendingOps = [],
               AcknowledgedOps = [DeleteOp 0 1 ''b'' 2]\<rparr>, None)
   \<and> Type (RetainOp 1) = OpRetain
   \<and> Apply (documentWith ''hi'') (RetainOp 1) =
     Returns (\<lparr>Document.Content = ''hi'', Document.Version = 1, PendingOps = [],
               AcknowledgedOps = [RetainOp 1]\<rparr>, None)"
  using version_counts_applied_operations
    [of "[InsertOp 0 ''hi'' ''a'' 0, RetainOp 1, DeleteOp 0 1 ''b'' 2]"
        "\<lparr>Document.Content = ''i'', Document.Version = 3, PendingOps = [],
          AcknowledgedOps = [InsertOp 0 ''hi'' ''a'' 0, RetainOp 1, DeleteOp 0 1 ''b'' 2]\<rparr>"
        "documentWith ''hi''" "DeleteOp 0 1 ''b'' 2"
        "\<lparr>Document.Content = ''i'', Document.Version = 1, PendingOps = [],
          AcknowledgedOps = [DeleteOp 0 1 ''b'' 2]\<rparr>"
        "RetainOp 1"]
    example_run example_apply
  by (simp add: RetainOp_def documentWith_def NewDocument_def)

section \<open>Two inserts at one position\<close>

lemma insert_then_insert_after:
  assumes "Type x = OpInsert" "Type y = OpInsert"
    "0 \<le> p" "p \<le> int (length (Document.Content d))"
    "Position x = p" "Position y = p + int (length (Operation.Content x))"
  shows "contentAfter (ApplyAll d [x, y]) =
     Some (take (nat p) (Document.Content d) @ Operation.Content x @ Operation.Content y @
           drop (nat p) (Document.Content d))"
proof -
  let ?S = "Document.Content d"
  let ?d1 = "acknowledge
     (d\<lparr>Document.Content := take (nat p) ?S @ Operation.Content x @ drop (nat p) ?S\<rparr>) x"
  have 1: "Apply d x = Returns (?d1, None)"
    using assms by (simp add: Apply_insert_ok)
  have c1: "Document.Content ?d1 = take (nat p) ?S @ Operation.Content x @ drop (nat p) ?S"
    by (simp add: acknowledge_def)
  have n: "nat (Position y) = nat p + length (Operation.Content x)"
    using assms by (simp add: nat_add_distrib)
  have l1: "length (take (nat p) ?S) = nat p"
    using assms by simp
  have 2: "Apply ?d1 y = Returns (acknowledge (?d1\<lparr>Document.Content :=
       take (nat (Position y)) (Document.Content ?d1) @ Operation.Content y @
       drop (nat (Position y)) (Document.Content ?d1)\<rparr>) y, None)"
    by (rule Apply_insert_ok) (use assms in \<open>auto simp: c1\<close>)
  have t: "take (nat (Position y)) (Document.Content ?d1) =
      take (nat p) ?S @ Operation.Content x"
    unfolding c1 n using l1 by simp
  have dr: "drop (nat (Position y)) (Document.Content ?d1) = drop (nat p) ?S"
    unfolding c1 n using l1 by simp
  show ?thesis
    unfolding ApplyAll_two [OF 1 2] using t dr by (simp add: acknowledge_def)
qed

lemma insert_then_insert_before:
  assumes "Type x = OpInsert" "Type y = OpInsert"
    "0 \<le> p" "p \<le> int (length (Document.Content d))"
    "Position x = p" "Position y = p"
  shows "contentAfter (ApplyAll d [x, y]) =
     Some (take (nat p) (Document.Content d) @ Operation.Content y @ Operation.Content x @
           drop (nat p) (Document.Content d))"
proof -
  let ?S = "Document.Content d"
  let ?d1 = "acknowledge
     (d\<lparr>Document.Content := take (nat p) ?S @ Operation.Content x @ drop (nat p) ?S\<rparr>) x"
  have 1: "Apply d x = Returns (?d1, None)"
    using assms by (simp add: Apply_insert_ok)
  have c1: "Document.Content ?d1 = take (nat p) ?S @ Operation.Content x @ drop (nat p) ?S"
    by (simp add: acknowledge_def)
  have l1: "length (take (nat p) ?S) = nat p"
    using assms by simp
  have 2: "Apply ?d1 y = Returns (acknowledge (?d1\<lparr>Document.Content :=
       take (nat (Position y)) (Document.Content ?d1) @ Operation.Content y @
       drop (nat (Position y)) (Document.Content ?d1)\<rparr>) y, None)"
    by (rule Apply_insert_ok) (use assms in \<open>auto simp: c1\<close>)
  have t: "take (nat (Position y)) (Document.Content ?d1) = take (nat p) ?S"
    unfolding c1 using l1 assms by simp
  have dr: "drop (nat (Position y)) (Document.Content ?d1) =
      Operation.Content x @ drop (nat p) ?S"
    unfolding c1 using l1 assms by simp
  show ?thesis
    unfolding ApplyAll_two [OF 1 2] using t dr by (simp add: acknowledge_def)
qed

text \<open>
  C4: two Inserts \<open>a\<close> and \<open>b\<close> at the same position with distinct client identifiers.
  One identifier is the smaller in the lexicographic order; \<open>Transform\<close> leaves the
  insert of the smaller identifier where it is and moves the other right by the length
  of the smaller one's text. When the position is valid on the document, applying
  \<open>a\<close> and then the transformed \<open>b\<close>, or \<open>b\<close> and then the transformed \<open>a\<close>, both give
  the content with the text of the smaller identifier first.
\<close>

theorem same_position_inserts_ordered_by_client:
  assumes "Type a = OpInsert" "Type b = OpInsert" "Position a = Position b"
    "ClientID a \<noteq> ClientID b"
  shows "(ClientID a < ClientID b \<or> ClientID b < ClientID a)
    \<and> Transform a b =
        (if ClientID a < ClientID b
         then (a, b\<lparr>Position := Position b + int (length (Operation.Content a))\<rparr>)
         else (a\<lparr>Position := Position a + int (length (Operation.Content b))\<rparr>, b))
    \<and> (0 \<le> Position a \<and> Position a \<le> int (length (Document.Content d)) \<longrightarrow>
         contentAfter (ApplyAll d [a, snd (Transform a b)]) =
           Some (take (nat (Position a)) (Document.Content d) @
                 (if ClientID a < ClientID b
                  then Operation.Content a @ Operation.Content b
                  else Operation.Content b @ Operation.Content a) @
                 drop (nat (Position a)) (Document.Content d))
       \<and> contentAfter (ApplyAll d [b, fst (Transform a b)]) =
           Some (take (nat (Position a)) (Document.Content d) @
                 (if ClientID a < ClientID b
                  then Operation.Content a @ Operation.Content b
                  else Operation.Content b @ Operation.Content a) @
                 drop (nat (Position a)) (Document.Content d)))"
proof -
  let ?S = "Document.Content d"
  let ?p = "nat (Position a)"
  have ord: "ClientID a < ClientID b \<or> ClientID b < ClientID a"
    using assms(4) by (rule linorder_neqE) auto
  have tr: "Transform a b =
        (if ClientID a < ClientID b
         then (a, b\<lparr>Position := Position b + int (length (Operation.Content a))\<rparr>)
         else (a\<lparr>Position := Position a + int (length (Operation.Content b))\<rparr>, b))"
    using assms by (simp add: Transform_def transformInsertInsert_def)
  have conv: "contentAfter (ApplyAll d [a, snd (Transform a b)]) =
           Some (take ?p ?S @
                 (if ClientID a < ClientID b
                  then Operation.Content a @ Operation.Content b
                  else Operation.Content b @ Operation.Content a) @ drop ?p ?S)
       \<and> contentAfter (ApplyAll d [b, fst (Transform a b)]) =
           Some (take ?p ?S @
                 (if ClientID a < ClientID b
                  then Operation.Content a @ Operation.Content b
                  else Operation.Content b @ Operation.Content a) @ drop ?p ?S)"
    if v: "0 \<le> Position a" "Position a \<le> int (length ?S)"
  proof (cases "ClientID a < ClientID b")
    case True
    let ?b' = "b\<lparr>Position := Position b + int (length (Operation.Content a))\<rparr>"
    have "contentAfter (ApplyAll d [a, ?b']) =
        Some (take ?p ?S @ Operation.Content a @ Operation.Content ?b' @ drop ?p ?S)"
      by (rule insert_then_insert_after) (use assms v in auto)
    moreover have "contentAfter (ApplyAll d [b, a]) =
        Some (take ?p ?S @ Operation.Content a @ Operation.Content b @ drop ?p ?S)"
      by (rule insert_then_insert_before) (use assms v in auto)
    ultimately show ?thesis using True tr by simp
  next
    case False
    let ?a' = "a\<lparr>Position := Position a + int (length (Operation.Content b))\<rparr>"
    have "contentAfter (ApplyAll d [b, ?a']) =
        Some (take ?p ?S @ Operation.Content b @ Operation.Content ?a' @ drop ?p ?S)"
      by (rule insert_then_insert_after) (use assms v in auto)
    moreover have "contentAfter (ApplyAll d [a, b]) =
        Some (take ?p ?S @ Operation.Content b @ Operation.Content a @ drop ?p ?S)"
      by (rule insert_then_insert_before) (use assms v in auto)
    ultimately show ?thesis using False tr by simp
  qed
  from ord tr conv show ?thesis by blast
qed

text \<open>The spec's scenario: clients \<open>a1\<close> and \<open>b9\<close> both insert at position 1 of \<open>XY\<close>;
  in either order of application the content is \<open>XABY\<close>.\<close>

theorem same_position_inserts_ordered_by_client_witness:
  "Type (InsertOp 1 ''A'' ''a1'' 5) = OpInsert \<and> Type (InsertOp 1 ''B'' ''b9'' 5) = OpInsert
   \<and> Position (InsertOp 1 ''A'' ''a1'' 5) = Position (InsertOp 1 ''B'' ''b9'' 5)
   \<and> ClientID (InsertOp 1 ''A'' ''a1'' 5) \<noteq> ClientID (InsertOp 1 ''B'' ''b9'' 5)
   \<and> Transform (InsertOp 1 ''A'' ''a1'' 5) (InsertOp 1 ''B'' ''b9'' 5) =
       (InsertOp 1 ''A'' ''a1'' 5, InsertOp 2 ''B'' ''b9'' 5)
   \<and> contentAfter (ApplyAll (documentWith ''XY'')
        [InsertOp 1 ''A'' ''a1'' 5,
         snd (Transform (InsertOp 1 ''A'' ''a1'' 5) (InsertOp 1 ''B'' ''b9'' 5))]) = Some ''XABY''
   \<and> contentAfter (ApplyAll (documentWith ''XY'')
        [InsertOp 1 ''B'' ''b9'' 5,
         fst (Transform (InsertOp 1 ''A'' ''a1'' 5) (InsertOp 1 ''B'' ''b9'' 5))]) = Some ''XABY''"
proof -
  let ?a = "InsertOp 1 ''A'' ''a1'' 5" and ?b = "InsertOp 1 ''B'' ''b9'' 5"
  have h: "Type ?a = OpInsert" "Type ?b = OpInsert" "Position ?a = Position ?b"
    "ClientID ?a \<noteq> ClientID ?b"
    by (simp_all add: InsertOp_def)
  have lt: "ClientID ?a < ClientID ?b"
    by (simp add: InsertOp_def)
  have v: "0 \<le> Position ?a \<and> Position ?a \<le> int (length (Document.Content (documentWith ''XY'')))"
    by (simp add: InsertOp_def documentWith_def)
  note t = same_position_inserts_ordered_by_client [OF h, of "documentWith ''XY''"]
  have rhs: "take (nat (Position ?a)) (Document.Content (documentWith ''XY'')) @
      (if ClientID ?a < ClientID ?b
       then Operation.Content ?a @ Operation.Content ?b
       else Operation.Content ?b @ Operation.Content ?a) @
      drop (nat (Position ?a)) (Document.Content (documentWith ''XY'')) = ''XABY''"
    by (simp add: InsertOp_def documentWith_def)
  from t have "Transform ?a ?b =
      (if ClientID ?a < ClientID ?b
       then (?a, ?b\<lparr>Position := Position ?b + int (length (Operation.Content ?a))\<rparr>)
       else (?a\<lparr>Position := Position ?a + int (length (Operation.Content ?b))\<rparr>, ?b))"
    by blast
  with lt have tr: "Transform ?a ?b = (?a, InsertOp 2 ''B'' ''b9'' 5)"
    by (simp add: InsertOp_def)
  from t v have
    "contentAfter (ApplyAll (documentWith ''XY'') [?a, snd (Transform ?a ?b)]) = Some ''XABY''"
    "contentAfter (ApplyAll (documentWith ''XY'') [?b, fst (Transform ?a ?b)]) = Some ''XABY''"
    unfolding rhs by blast+
  with h tr show ?thesis by blast
qed

section \<open>The scanning loops of \<open>GenerateOperation\<close>\<close>

declare insertScan.simps [simp del] deleteScan.simps [simp del]

lemma insertScan_step:
  "i < length old \<Longrightarrow> i < length new \<Longrightarrow>
   insertScan old new i =
     (if old ! i \<noteq> new ! i then Returns (Some i) else insertScan old new (Suc i))"
  by (subst insertScan.simps) (simp add: byteAt_def)

lemma insertScan_stop:
  "\<not> (i < length old \<and> i < length new) \<Longrightarrow> insertScan old new i = Returns None"
  by (subst insertScan.simps) auto

lemma insertScan_returns: "\<exists>r. insertScan old new i = Returns r"
proof (induction "length old - i" arbitrary: i)
  case 0
  then show ?case by (simp add: insertScan_stop)
next
  case (Suc n)
  show ?case
  proof (cases "i < length old \<and> i < length new")
    case True
    moreover from Suc have "\<exists>r. insertScan old new (Suc i) = Returns r" by simp
    ultimately show ?thesis by (simp add: insertScan_step)
  next
    case False
    then show ?thesis by (simp add: insertScan_stop)
  qed
qed

lemma insertScan_Some:
  "insertScan old new i = Returns (Some k) \<Longrightarrow>
   i \<le> k \<and> k < length old \<and> k < length new \<and> old ! k \<noteq> new ! k \<and>
   (\<forall>j. i \<le> j \<and> j < k \<longrightarrow> old ! j = new ! j)"
proof (induction "length old - i" arbitrary: i)
  case 0
  then show ?case by (simp add: insertScan_stop)
next
  case (Suc n)
  show ?case
  proof (cases "i < length old \<and> i < length new")
    case False
    with Suc.prems show ?thesis by (simp add: insertScan_stop)
  next
    case inr: True
    show ?thesis
    proof (cases "old ! i = new ! i")
      case False
      with inr Suc.prems have "k = i" by (simp add: insertScan_step)
      with False inr show ?thesis by auto
    next
      case True
      with inr Suc.prems have "insertScan old new (Suc i) = Returns (Some k)"
        by (simp add: insertScan_step)
      moreover from Suc.hyps have "n = length old - Suc i" by simp
      ultimately have ih: "Suc i \<le> k \<and> k < length old \<and> k < length new \<and> old ! k \<noteq> new ! k \<and>
   (\<forall>j. Suc i \<le> j \<and> j < k \<longrightarrow> old ! j = new ! j)"
        by (rule Suc.hyps(1) [rotated])
      have "old ! j = new ! j" if "i \<le> j" "j < k" for j
      proof (cases "j = i")
        case True
        with \<open>old ! i = new ! i\<close> show ?thesis by simp
      next
        case False
        with that have "Suc i \<le> j" by simp
        with ih that show ?thesis by blast
      qed
      with ih show ?thesis by auto
    qed
  qed
qed

lemma insertScan_None:
  "insertScan old new i = Returns None \<Longrightarrow>
   \<forall>j. i \<le> j \<and> j < length old \<and> j < length new \<longrightarrow> old ! j = new ! j"
proof (induction "length old - i" arbitrary: i)
  case 0
  then show ?case by auto
next
  case (Suc n)
  show ?case
  proof (cases "i < length old \<and> i < length new")
    case False
    then show ?thesis by auto
  next
    case inr: True
    show ?thesis
    proof (cases "old ! i = new ! i")
      case False
      with inr Suc.prems show ?thesis by (simp add: insertScan_step)
    next
      case True
      with inr Suc.prems have "insertScan old new (Suc i) = Returns None"
        by (simp add: insertScan_step)
      moreover from Suc.hyps have "n = length old - Suc i" by simp
      ultimately have ih: "\<forall>j. Suc i \<le> j \<and> j < length old \<and> j < length new \<longrightarrow> old ! j = new ! j"
        by (rule Suc.hyps(1) [rotated])
      show ?thesis
      proof (intro allI impI)
        fix j assume j: "i \<le> j \<and> j < length old \<and> j < length new"
        show "old ! j = new ! j"
        proof (cases "j = i")
          case True
          with \<open>old ! i = new ! i\<close> show ?thesis by simp
        next
          case False
          with j have "Suc i \<le> j" by simp
          with ih j show ?thesis by blast
        qed
      qed
    qed
  qed
qed

lemma deleteScan_eq_insertScan:
  assumes "length new \<le> length old"
  shows "deleteScan old new i = insertScan old new i"
proof (induction "length new - i" arbitrary: i)
  case 0
  then have "\<not> i < length new" by simp
  then show ?case
    by (subst deleteScan.simps) (simp add: insertScan_stop)
next
  case (Suc n)
  then have i: "i < length new" "i < length old" using assms by simp_all
  from Suc have "deleteScan old new (Suc i) = insertScan old new (Suc i)" by simp
  with i show ?case
    by (subst deleteScan.simps) (simp add: insertScan_step byteAt_def)
qed

lemma take_mid_drop: "take k T @ take n (drop k T) @ drop (k + n) T = T"
proof -
  have "take n (drop k T) @ drop (k + n) T = drop k T"
    by (metis add.commute append_take_drop_id drop_drop)
  then show ?thesis by simp
qed

lemma first_difference_after_edit:
  assumes S: "S = A @ B" and T: "T = A @ X @ B"
    and k: "k \<le> length S"
    and agree: "\<forall>j. j < k \<longrightarrow> S ! j = T ! j"
    and stop: "k = length S \<or> S ! k \<noteq> T ! k"
  shows "take k T = take k S"
    and "drop (k + length X) T = drop k S"
proof -
  have pk: "length A \<le> k"
  proof (rule ccontr)
    assume "\<not> length A \<le> k"
    then have "k < length A" by simp
    then have "S ! k = T ! k" "k \<noteq> length S" by (simp_all add: S T nth_append)
    then show False using stop by simp
  qed
  show "take k T = take k S"
  proof (rule nth_take_lemma)
    show "k \<le> length T" using k by (simp add: S T)
    show "k \<le> length S" by (rule k)
    show "\<And>i. i < k \<longrightarrow> T ! i = S ! i" using agree by simp
  qed
  from pk show "drop (k + length X) T = drop k S"
    by (simp add: S T)
qed

lemma split_at_first_difference:
  assumes "S = A @ B" and "T = A @ X @ B"
    and "k \<le> length S"
    and "\<forall>j. j < k \<longrightarrow> S ! j = T ! j"
    and "k = length S \<or> S ! k \<noteq> T ! k"
  shows "take k S @ take (length X) (drop k T) @ drop k S = T"
proof -
  note f = first_difference_after_edit [OF assms]
  have "take k S @ take (length X) (drop k T) @ drop k S =
      take k T @ take (length X) (drop k T) @ drop (k + length X) T"
    by (simp only: f)
  also have "\<dots> = T" by (rule take_mid_drop)
  finally show ?thesis .
qed

lemma join_at_first_difference:
  assumes "S = A @ B" and "T = A @ X @ B"
    and "k \<le> length S"
    and "\<forall>j. j < k \<longrightarrow> S ! j = T ! j"
    and "k = length S \<or> S ! k \<noteq> T ! k"
  shows "take k T @ drop (k + length X) T = S"
proof -
  note f = first_difference_after_edit [OF assms]
  show ?thesis by (simp only: f append_take_drop_id)
qed

lemma insertScan_first_difference:
  "\<exists>k. k \<le> length old \<and> k \<le> length new \<and> (\<forall>j. j < k \<longrightarrow> old ! j = new ! j) \<and>
       ((k = length old \<or> k = length new) \<and> insertScan old new 0 = Returns None \<or>
        k < length old \<and> k < length new \<and> old ! k \<noteq> new ! k \<and>
        insertScan old new 0 = Returns (Some k))"
proof -
  from insertScan_returns obtain r where r: "insertScan old new 0 = Returns r" by blast
  show ?thesis
  proof (cases r)
    case None
    with r have a: "\<forall>j. 0 \<le> j \<and> j < length old \<and> j < length new \<longrightarrow> old ! j = new ! j"
      using insertScan_None by blast
    let ?k = "min (length old) (length new)"
    have "?k \<le> length old" "?k \<le> length new" "?k = length old \<or> ?k = length new"
      by auto
    moreover from a have "\<forall>j. j < ?k \<longrightarrow> old ! j = new ! j" by simp
    ultimately show ?thesis using r None by blast
  next
    case (Some k)
    with r have "0 \<le> k \<and> k < length old \<and> k < length new \<and> old ! k \<noteq> new ! k \<and>
       (\<forall>j. 0 \<le> j \<and> j < k \<longrightarrow> old ! j = new ! j)"
      using insertScan_Some by blast
    then have "k \<le> length old" "k \<le> length new" "k < length old" "k < length new"
      "old ! k \<noteq> new ! k" "\<forall>j. j < k \<longrightarrow> old ! j = new ! j"
      by simp_all
    with r Some show ?thesis by blast
  qed
qed

lemma GenerateOperation_insert:
  assumes "length old < length new"
  shows "\<exists>k. k \<le> length old \<and> (\<forall>j. j < k \<longrightarrow> old ! j = new ! j) \<and>
     (k = length old \<or> old ! k \<noteq> new ! k) \<and>
     GenerateOperation old new pos cid =
       Returns \<lparr>Type = OpInsert, Position = int k,
                Operation.Content = take (length new - length old) (drop k new),
                Length = 0, ClientID = cid, Operation.Version = 0\<rparr>"
proof -
  from insertScan_first_difference [of old new] obtain k where
    k: "k \<le> length old" "k \<le> length new" "\<forall>j. j < k \<longrightarrow> old ! j = new ! j"
    and c: "(k = length old \<or> k = length new) \<and> insertScan old new 0 = Returns None \<or>
        k < length old \<and> k < length new \<and> old ! k \<noteq> new ! k \<and>
        insertScan old new 0 = Returns (Some k)"
    by blast
  have n: "nat (int (length new) - int (length old)) = length new - length old"
    by simp
  from c show ?thesis
  proof
    assume a: "(k = length old \<or> k = length new) \<and> insertScan old new 0 = Returns None"
    with k assms have ko: "k = length old" by auto
    have "slice new (int (length old)) (int (length new)) =
        Returns (take (length new - length old) (drop (length old) new))"
      using assms by (simp add: slice_def n)
    with a assms have "GenerateOperation old new pos cid =
       Returns \<lparr>Type = OpInsert, Position = int k,
                Operation.Content = take (length new - length old) (drop k new),
                Length = 0, ClientID = cid, Operation.Version = 0\<rparr>"
      by (simp add: GenerateOperation_def Let_def ko)
    with k ko show ?thesis by blast
  next
    assume a: "k < length old \<and> k < length new \<and> old ! k \<noteq> new ! k \<and>
        insertScan old new 0 = Returns (Some k)"
    have "slice new (int k) (int k + (int (length new) - int (length old))) =
        Returns (take (length new - length old) (drop k new))"
      using assms a by (simp add: slice_def n)
    with a assms have "GenerateOperation old new pos cid =
       Returns \<lparr>Type = OpInsert, Position = int k,
                Operation.Content = take (length new - length old) (drop k new),
                Length = 0, ClientID = cid, Operation.Version = 0\<rparr>"
      by (simp add: GenerateOperation_def Let_def)
    with k a show ?thesis by blast
  qed
qed

lemma GenerateOperation_delete:
  assumes "length new < length old"
  shows "\<exists>k. k \<le> length new \<and> (\<forall>j. j < k \<longrightarrow> new ! j = old ! j) \<and>
     (k = length new \<or> new ! k \<noteq> old ! k) \<and>
     GenerateOperation old new pos cid =
       Returns \<lparr>Type = OpDelete, Position = int k, Operation.Content = [],
                Length = int (length old) - int (length new), ClientID = cid,
                Operation.Version = 0\<rparr>"
proof -
  from insertScan_first_difference [of old new] obtain k where
    k: "k \<le> length old" "k \<le> length new" "\<forall>j. j < k \<longrightarrow> old ! j = new ! j"
    and c: "(k = length old \<or> k = length new) \<and> insertScan old new 0 = Returns None \<or>
        k < length old \<and> k < length new \<and> old ! k \<noteq> new ! k \<and>
        insertScan old new 0 = Returns (Some k)"
    by blast
  have d: "deleteScan old new 0 = insertScan old new 0"
    using assms by (simp add: deleteScan_eq_insertScan)
  from k have agree: "\<forall>j. j < k \<longrightarrow> new ! j = old ! j" by simp
  from c show ?thesis
  proof
    assume a: "(k = length old \<or> k = length new) \<and> insertScan old new 0 = Returns None"
    with k assms have kn: "k = length new" by auto
    from a assms have "GenerateOperation old new pos cid =
       Returns \<lparr>Type = OpDelete, Position = int k, Operation.Content = [],
                Length = int (length old) - int (length new), ClientID = cid,
                Operation.Version = 0\<rparr>"
      by (simp add: GenerateOperation_def Let_def d kn)
    with k kn agree show ?thesis by blast
  next
    assume a: "k < length old \<and> k < length new \<and> old ! k \<noteq> new ! k \<and>
        insertScan old new 0 = Returns (Some k)"
    with assms have "GenerateOperation old new pos cid =
       Returns \<lparr>Type = OpDelete, Position = int k, Operation.Content = [],
                Length = int (length old) - int (length new), ClientID = cid,
                Operation.Version = 0\<rparr>"
      by (simp add: GenerateOperation_def Let_def d)
    moreover from a have "new ! k \<noteq> old ! k" by auto
    ultimately show ?thesis using k agree by blast
  qed
qed

lemma GenerateOperation_retain:
  "length new = length old \<Longrightarrow> GenerateOperation old new pos cid = Returns (RetainOp 0)"
  by (simp add: GenerateOperation_def RetainOp_def)

section \<open>The generated operation\<close>

text \<open>
  C10: for all strings \<open>oldContent\<close> (the content of the document) and \<open>newContent\<close>,
  \<open>GenerateOperation\<close> returns an operation (it does not panic) and \<open>Apply\<close> accepts
  it on the document. A returned Insert has its position in \<open>[0, len(oldContent)]\<close> and
  its text is the slice of \<open>newContent\<close> of length \<open>newLen - oldLen\<close> at that position,
  which is in bounds; a returned Delete has a non-negative position and length and ends
  within \<open>oldContent\<close>; equal lengths give a Retain, a longer \<open>newContent\<close> an Insert, a
  shorter one a Delete.
\<close>

theorem generated_operation_applies:
  "\<exists>op d'. GenerateOperation (Document.Content d) new pos cid = Returns op
     \<and> Apply d op = Returns (d', None)
     \<and> (Type op = OpInsert \<longrightarrow>
          0 \<le> Position op \<and> Position op \<le> int (length (Document.Content d)) \<and>
          slice new (Position op)
            (Position op + (int (length new) - int (length (Document.Content d)))) =
            Returns (Operation.Content op))
     \<and> (Type op = OpDelete \<longrightarrow>
          0 \<le> Position op \<and> 0 \<le> Length op \<and>
          Position op + Length op \<le> int (length (Document.Content d)))
     \<and> (length new = length (Document.Content d) \<longrightarrow> Type op = OpRetain)
     \<and> (length (Document.Content d) < length new \<longrightarrow> Type op = OpInsert)
     \<and> (length new < length (Document.Content d) \<longrightarrow> Type op = OpDelete)"
proof -
  let ?old = "Document.Content d"
  consider (ins) "length ?old < length new" | (del) "length new < length ?old"
    | (same) "length new = length ?old"
    by linarith
  then show ?thesis
  proof cases
    case ins
    from GenerateOperation_insert [OF ins, of pos cid] obtain k where
      k: "k \<le> length ?old"
      and g: "GenerateOperation ?old new pos cid =
       Returns \<lparr>Type = OpInsert, Position = int k,
                Operation.Content = take (length new - length ?old) (drop k new),
                Length = 0, ClientID = cid, Operation.Version = 0\<rparr>"
      by blast
    let ?op = "\<lparr>Type = OpInsert, Position = int k,
                Operation.Content = take (length new - length ?old) (drop k new),
                Length = 0, ClientID = cid, Operation.Version = 0\<rparr>"
    have "\<exists>d'. Apply d ?op = Returns (d', None)"
      using k by (simp add: Apply_insert_ok)
    moreover have "slice new (Position ?op)
            (Position ?op + (int (length new) - int (length ?old))) =
            Returns (Operation.Content ?op)"
    proof -
      have "nat (int (length new) - int (length ?old)) = length new - length ?old"
        by simp
      with k ins show ?thesis by (simp add: slice_def)
    qed
    moreover have "Type ?op = OpInsert" "0 \<le> Position ?op" "Position ?op \<le> int (length ?old)"
      using k by simp_all
    ultimately show ?thesis using g ins by auto
  next
    case del
    from GenerateOperation_delete [OF del, of pos cid] obtain k where
      k: "k \<le> length new"
      and g: "GenerateOperation ?old new pos cid =
       Returns \<lparr>Type = OpDelete, Position = int k, Operation.Content = [],
                Length = int (length ?old) - int (length new), ClientID = cid,
                Operation.Version = 0\<rparr>"
      by blast
    let ?op = "\<lparr>Type = OpDelete, Position = int k, Operation.Content = [],
                Length = int (length ?old) - int (length new), ClientID = cid,
                Operation.Version = 0\<rparr>"
    have "\<exists>d'. Apply d ?op = Returns (d', None)"
      using k del by (simp add: Apply_delete_ok)
    moreover have "Type ?op = OpDelete" "0 \<le> Position ?op" "0 \<le> Length ?op"
      "Position ?op + Length ?op \<le> int (length ?old)"
      using k del by simp_all
    ultimately show ?thesis using g del by auto
  next
    case same
    then have "GenerateOperation ?old new pos cid = Returns (RetainOp 0)"
      by (rule GenerateOperation_retain)
    moreover have "Apply d (RetainOp 0) = Returns (acknowledge d (RetainOp 0), None)"
      by (simp add: Apply_retain RetainOp_def)
    moreover have "Type (RetainOp 0) = OpRetain" by (simp add: RetainOp_def)
    ultimately show ?thesis using same by auto
  qed
qed

lemma diff_insertion:
  assumes d: "Document.Content d = A @ B"
  shows "\<exists>op. GenerateOperation (A @ B) (A @ X @ B) pos cid = Returns op \<and>
     Apply d op = Returns (acknowledge (d\<lparr>Document.Content := A @ X @ B\<rparr>) op, None)"
proof (cases "X = []")
  case True
  have "d\<lparr>Document.Content := A @ B\<rparr> = d" using d by simp
  then show ?thesis
    using True by (simp add: GenerateOperation_retain Apply_retain RetainOp_def)
next
  case False
  let ?S = "A @ B" and ?T = "A @ X @ B"
  from False have lt: "length ?S < length ?T" by simp
  have n: "length ?T - length ?S = length X" by simp
  from GenerateOperation_insert [OF lt, of pos cid] obtain k where
    k: "k \<le> length ?S" "\<forall>j. j < k \<longrightarrow> ?S ! j = ?T ! j" "k = length ?S \<or> ?S ! k \<noteq> ?T ! k"
    and g: "GenerateOperation ?S ?T pos cid =
       Returns \<lparr>Type = OpInsert, Position = int k,
                Operation.Content = take (length ?T - length ?S) (drop k ?T),
                Length = 0, ClientID = cid, Operation.Version = 0\<rparr>"
    by blast
  let ?op = "\<lparr>Type = OpInsert, Position = int k,
                Operation.Content = take (length ?T - length ?S) (drop k ?T),
                Length = 0, ClientID = cid, Operation.Version = 0\<rparr>"
  have sp: "take k ?S @ take (length X) (drop k ?T) @ drop k ?S = ?T"
    by (rule split_at_first_difference [OF refl refl k])
  have "Apply d ?op = Returns (acknowledge (d\<lparr>Document.Content :=
       take (nat (Position ?op)) (Document.Content d) @ Operation.Content ?op @
       drop (nat (Position ?op)) (Document.Content d)\<rparr>) ?op, None)"
    by (rule Apply_insert_ok) (use k d in simp_all)
  also have "take (nat (Position ?op)) (Document.Content d) @ Operation.Content ?op @
       drop (nat (Position ?op)) (Document.Content d) = ?T"
    using sp by (simp only: d n Operation.simps nat_int)
  finally show ?thesis using g by blast
qed

lemma diff_deletion:
  assumes d: "Document.Content d = A @ X @ B"
  shows "\<exists>op. GenerateOperation (A @ X @ B) (A @ B) pos cid = Returns op \<and>
     Apply d op = Returns (acknowledge (d\<lparr>Document.Content := A @ B\<rparr>) op, None)"
proof (cases "X = []")
  case True
  have "d\<lparr>Document.Content := A @ B\<rparr> = d" using d True by simp
  then show ?thesis
    using True by (simp add: GenerateOperation_retain Apply_retain RetainOp_def)
next
  case False
  let ?S = "A @ B" and ?T = "A @ X @ B"
  from False have lt: "length ?S < length ?T" by simp
  have n: "int (length ?T) - int (length ?S) = int (length X)" by simp
  from GenerateOperation_delete [OF lt, of pos cid] obtain k where
    k: "k \<le> length ?S" "\<forall>j. j < k \<longrightarrow> ?S ! j = ?T ! j" "k = length ?S \<or> ?S ! k \<noteq> ?T ! k"
    and g: "GenerateOperation ?T ?S pos cid =
       Returns \<lparr>Type = OpDelete, Position = int k, Operation.Content = [],
                Length = int (length ?T) - int (length ?S), ClientID = cid,
                Operation.Version = 0\<rparr>"
    by blast
  let ?op = "\<lparr>Type = OpDelete, Position = int k, Operation.Content = [],
                Length = int (length ?T) - int (length ?S), ClientID = cid,
                Operation.Version = 0\<rparr>"
  have jn: "take k ?T @ drop (k + length X) ?T = ?S"
    by (rule join_at_first_difference [OF refl refl k])
  have "Apply d ?op = Returns (acknowledge (d\<lparr>Document.Content :=
       take (nat (Position ?op)) (Document.Content d) @
       drop (nat (Position ?op + Length ?op)) (Document.Content d)\<rparr>) ?op, None)"
    by (rule Apply_delete_ok) (use k d in simp_all)
  also have "nat (Position ?op + Length ?op) = k + length X"
    by simp
  also have "take (nat (Position ?op)) (Document.Content d) @
       drop (k + length X) (Document.Content d) = ?S"
    using jn by (simp only: d Operation.simps nat_int)
  finally show ?thesis using g by blast
qed

text \<open>
  C7: when the new content is the old content with one contiguous run \<open>X\<close> inserted
  (old \<open>A @ B\<close>, new \<open>A @ X @ B\<close>), or with one contiguous run removed (old
  \<open>A @ X @ B\<close>, new \<open>A @ B\<close>), \<open>GenerateOperation\<close> returns an operation whose
  application to a document holding the old content succeeds and leaves exactly the new
  content.
\<close>

theorem diff_then_apply_single_edit:
  "(Document.Content d1 = A @ B \<longrightarrow>
      (\<exists>op. GenerateOperation (A @ B) (A @ X @ B) pos cid = Returns op \<and>
        Apply d1 op = Returns (acknowledge (d1\<lparr>Document.Content := A @ X @ B\<rparr>) op, None)))
   \<and> (Document.Content d2 = A @ X @ B \<longrightarrow>
      (\<exists>op. GenerateOperation (A @ X @ B) (A @ B) pos cid = Returns op \<and>
        Apply d2 op = Returns (acknowledge (d2\<lparr>Document.Content := A @ B\<rparr>) op, None)))"
  using diff_insertion diff_deletion by blast

theorem generated_operation_applies_witness:
  "GenerateOperation ''hello'' ''heXYllo'' 0 ''u'' = Returns (InsertOp 2 ''XY'' ''u'' 0)
   \<and> contentAfter (Apply (documentWith ''hello'') (InsertOp 2 ''XY'' ''u'' 0)) = Some ''heXYllo''
   \<and> slice ''heXYllo'' 2 4 = Returns ''XY''"
proof -
  have g: "GenerateOperation ''hello'' ''heXYllo'' 0 ''u'' = Returns (InsertOp 2 ''XY'' ''u'' 0)"
    by (simp add: GenerateOperation_def insertScan.simps byteAt_def slice_def InsertOp_def
        Let_def)
  from generated_operation_applies [of "documentWith ''hello''" "''heXYllo''" 0 "''u''"]
  obtain op d' where
    "GenerateOperation (Document.Content (documentWith ''hello'')) ''heXYllo'' 0 ''u'' =
       Returns op"
    and a: "Apply (documentWith ''hello'') op = Returns (d', None)"
    and i: "Type op = OpInsert \<longrightarrow>
          0 \<le> Position op \<and>
          Position op \<le> int (length (Document.Content (documentWith ''hello''))) \<and>
          slice ''heXYllo'' (Position op)
            (Position op + (int (length ''heXYllo'') -
               int (length (Document.Content (documentWith ''hello''))))) =
            Returns (Operation.Content op)"
    by blast
  with g have op: "op = InsertOp 2 ''XY'' ''u'' 0"
    by (simp add: documentWith_def)
  from i have "slice ''heXYllo'' 2 4 = Returns ''XY''"
    unfolding op by (simp add: InsertOp_def documentWith_def)
  moreover from a have "Document.Content d' = ''heXYllo''"
    unfolding op
    by (auto simp: Apply_def slice_def InsertOp_def documentWith_def acknowledge_def Let_def)
  with a have "contentAfter (Apply (documentWith ''hello'') (InsertOp 2 ''XY'' ''u'' 0)) =
      Some ''heXYllo''"
    unfolding op by simp
  ultimately show ?thesis using g by blast
qed

theorem diff_then_apply_single_edit_witness:
  "Document.Content (documentWith ''abc'') = ''ab'' @ ''c''
   \<and> GenerateOperation ''abc'' ''abXc'' 0 ''u'' = Returns (InsertOp 2 ''X'' ''u'' 0)
   \<and> contentAfter (Apply (documentWith ''abc'') (InsertOp 2 ''X'' ''u'' 0)) = Some ''abXc''
   \<and> Document.Content (documentWith ''abXc'') = ''ab'' @ ''X'' @ ''c''
   \<and> GenerateOperation ''abXc'' ''abc'' 0 ''u'' = Returns (DeleteOp 2 1 ''u'' 0)
   \<and> contentAfter (Apply (documentWith ''abXc'') (DeleteOp 2 1 ''u'' 0)) = Some ''abc''"
proof -
  have c: "Document.Content (documentWith ''abc'') = ''ab'' @ ''c''"
    "Document.Content (documentWith ''abXc'') = ''ab'' @ ''X'' @ ''c''"
    by (simp_all add: documentWith_def)
  have g: "GenerateOperation (''ab'' @ ''c'') (''ab'' @ ''X'' @ ''c'') 0 ''u'' =
      Returns (InsertOp 2 ''X'' ''u'' 0)"
    "GenerateOperation (''ab'' @ ''X'' @ ''c'') (''ab'' @ ''c'') 0 ''u'' =
      Returns (DeleteOp 2 1 ''u'' 0)"
    by (simp_all add: GenerateOperation_def insertScan.simps deleteScan.simps byteAt_def
        slice_def InsertOp_def DeleteOp_def Let_def)
  note t = diff_then_apply_single_edit
    [of "documentWith ''abc''" "''ab''" "''c''" "''X''" 0 "''u''" "documentWith ''abXc''"]
  from t c(1) obtain op1 where
    "GenerateOperation (''ab'' @ ''c'') (''ab'' @ ''X'' @ ''c'') 0 ''u'' = Returns op1"
    "Apply (documentWith ''abc'') op1 =
       Returns (acknowledge
         (documentWith ''abc''\<lparr>Document.Content := ''ab'' @ ''X'' @ ''c''\<rparr>) op1, None)"
    by blast
  with g(1) have 1: "contentAfter (Apply (documentWith ''abc'') (InsertOp 2 ''X'' ''u'' 0)) =
      Some ''abXc''"
    by (simp add: acknowledge_def)
  from t c(2) obtain op2 where
    "GenerateOperation (''ab'' @ ''X'' @ ''c'') (''ab'' @ ''c'') 0 ''u'' = Returns op2"
    "Apply (documentWith ''abXc'') op2 =
       Returns (acknowledge
         (documentWith ''abXc''\<lparr>Document.Content := ''ab'' @ ''c''\<rparr>) op2, None)"
    by blast
  with g(2) have 2: "contentAfter (Apply (documentWith ''abXc'') (DeleteOp 2 1 ''u'' 0)) =
      Some ''abc''"
    by (simp add: acknowledge_def)
  from c g 1 2 show ?thesis by simp
qed

section \<open>Convergence of \<open>Transform\<close>\<close>

text \<open>
  C1 fails on the code. An Insert strictly inside the range of a concurrent Delete is
  moved to the start of the range while the Delete is returned as it came (the branch's
  comment announces a split of the delete that the code does not make). On \<open>abc\<close>, with
  \<open>a\<close> inserting \<open>X\<close> at 1 and \<open>b\<close> deleting two bytes at 0: \<open>a\<close> then the transformed \<open>b\<close>
  leaves \<open>bc\<close> (the delete removes \<open>aX\<close>), \<open>b\<close> then the transformed \<open>a\<close> leaves \<open>Xc\<close>.
\<close>

theorem insert_inside_delete_diverges:
  "Transform (InsertOp 1 ''X'' ''a'' 0) (DeleteOp 0 2 ''b'' 0) =
     (InsertOp 0 ''X'' ''a'' 0, DeleteOp 0 2 ''b'' 0)
   \<and> contentAfter (ApplyAll (documentWith ''abc'')
        [InsertOp 1 ''X'' ''a'' 0,
         snd (Transform (InsertOp 1 ''X'' ''a'' 0) (DeleteOp 0 2 ''b'' 0))]) = Some ''bc''
   \<and> contentAfter (ApplyAll (documentWith ''abc'')
        [DeleteOp 0 2 ''b'' 0,
         fst (Transform (InsertOp 1 ''X'' ''a'' 0) (DeleteOp 0 2 ''b'' 0))]) = Some ''Xc''"
  by (simp add: Transform_def transformInsertDelete_def InsertOp_def DeleteOp_def
      documentWith_def NewDocument_def Apply_def add64_def slice_def acknowledge_def Let_def)

text \<open>The same property fails for a Delete that contains the other: the overlap is
  taken to the end of the leading delete, the trailing one gets a negative length, and
  applying it slices out of range.\<close>

lemma delete_inside_delete_panics:
  "ApplyAll (documentWith ''abcdef'')
        [DeleteOp 0 4 ''a'' 0,
         snd (Transform (DeleteOp 0 4 ''a'' 0) (DeleteOp 1 2 ''b'' 0))] = Panics
  \<and> contentAfter (ApplyAll (documentWith ''abcdef'')
        [DeleteOp 1 2 ''b'' 0,
         fst (Transform (DeleteOp 0 4 ''a'' 0) (DeleteOp 1 2 ''b'' 0))]) = Some ''def''"
  by (simp add: Transform_def transformDeleteDelete_def InsertOp_def DeleteOp_def
      documentWith_def NewDocument_def Apply_def add64_def slice_def acknowledge_def Let_def)

section \<open>Rebasing a late update\<close>

text \<open>
  C2 fails on the code. \<open>TransformAgainstHistory\<close> ranges over \<open>PendingOps\<close>, which
  nothing ever appends to; applied operations go to \<open>AcknowledgedOps\<close>. After client
  \<open>a\<close> has sent \<open>o\<close> and \<open>ko\<close> the document is at version 2. Client \<open>c\<close> then sends \<open>Zko\<close>
  with version 1: the diff is an insert of \<open>Z\<close> at 0, the client is behind, and the
  operation reaches \<open>Apply\<close> unchanged, giving \<open>Zko\<close>. Rebased against the two
  acknowledged inserts of \<open>a\<close> it would be an insert at 2, giving \<open>koZ\<close>.
\<close>

theorem late_update_not_rebased:
  "ProcessAll (NewOTManager ''d'') [(''a'', ''o'', 0), (''a'', ''ko'', 1)] = Returns lateManager
   \<and> 1 < Document.Version (document lateManager)
   \<and> GenerateOperation (lastContent lateManager) ''Zko'' 0 ''c'' = Returns (InsertOp 0 ''Z'' ''c'' 0)
   \<and> rebaseAgainstAcknowledged (document lateManager) (InsertOp 0 ''Z'' ''c'' 1) =
       InsertOp 2 ''Z'' ''c'' 1
   \<and> rebasedOperation lateManager ''c'' ''Zko'' 1 = Returns (InsertOp 0 ''Z'' ''c'' 1)
   \<and> contentAfter (Apply (document lateManager) (InsertOp 2 ''Z'' ''c'' 1)) = Some ''koZ''
   \<and> ProcessTextUpdate lateManager ''c'' ''Zko'' 1 =
       Returns (lateManager
                  \<lparr>document := (document lateManager)
                     \<lparr>Document.Content := ''Zko'', Document.Version := 3,
                      AcknowledgedOps := [InsertOp 0 ''o'' ''a'' 0, InsertOp 0 ''k'' ''a'' 1,
                                          InsertOp 0 ''Z'' ''c'' 1]\<rparr>,
                   lastContent := ''Zko''\<rparr>, ''Zko'', 3, None)"
  by (simp add: ProcessTextUpdate_def rebasedOperation_def GenerateOperation_def
      insertScan.simps byteAt_def slice_def Apply_def acknowledge_def NewOTManager_def
      NewDocument_def lateManager_def InsertOp_def Let_def TransformAgainstHistory_def
      rebaseAgainstAcknowledged_def Transform_def transformInsertInsert_def)

text \<open>The same holds in every state the manager can reach: the pending list stays
  empty, so the rebase changes no operation.\<close>

lemma Apply_pending: "Apply d op = Returns (d', e) \<Longrightarrow> PendingOps d' = PendingOps d"
  by (cases "Type op") (auto simp: Apply_def Let_def slice_def acknowledge_def split: if_splits)

lemma ProcessTextUpdate_pending:
  assumes "ProcessTextUpdate m c n v = Returns (m', r)"
  shows "PendingOps (document m') = PendingOps (document m)"
proof -
  from assms obtain op where "rebasedOperation m c n v = Returns op"
    by (cases "rebasedOperation m c n v") (auto simp: ProcessTextUpdate_def)
  with assms obtain d e where a: "Apply (document m) op = Returns (d, e)"
    and m': "document m' = d"
    by (cases "Apply (document m) op") (auto simp: ProcessTextUpdate_def split: option.splits)
  from Apply_pending [OF a] m' show ?thesis by simp
qed

lemma ProcessAll_pending:
  "ProcessAll m us = Returns m' \<Longrightarrow> PendingOps (document m') = PendingOps (document m)"
proof (induction us arbitrary: m)
  case Nil
  then show ?case by simp
next
  case (Cons u us)
  obtain c n v where u: "u = (c, n, v)" by (cases u) auto
  from Cons.prems u obtain m1 r where 1: "ProcessTextUpdate m c n v = Returns (m1, r)"
    and 2: "ProcessAll m1 us = Returns m'"
    by (cases "ProcessTextUpdate m c n v") auto
  from Cons.IH [OF 2] ProcessTextUpdate_pending [OF 1] show ?case by simp
qed

lemma reachable_never_rebases:
  assumes "ProcessAll (NewOTManager docID) us = Returns m"
  shows "PendingOps (document m) = []" and "TransformAgainstHistory (document m) op = op"
proof -
  from ProcessAll_pending [OF assms] show p: "PendingOps (document m) = []"
    by (simp add: NewOTManager_def NewDocument_def)
  then show "TransformAgainstHistory (document m) op = op"
    by (simp add: TransformAgainstHistory_def)
qed

section \<open>Updates of a reachable manager\<close>

text \<open>From \<open>NewOTManager\<close> on, the last content is the document's content and the
  pending list is empty, so every update generates an operation valid on the document:
  \<open>ProcessTextUpdate\<close> neither panics nor returns an error.\<close>

lemma Apply_generated:
  assumes "GenerateOperation (Document.Content d) new pos cid = Returns op0"
  shows "\<exists>d'. Apply d (op0\<lparr>Operation.Version := v\<rparr>) = Returns (d', None)"
proof -
  let ?old = "Document.Content d"
  let ?op = "op0\<lparr>Operation.Version := v\<rparr>"
  consider (ins) "length ?old < length new" | (del) "length new < length ?old"
    | (same) "length new = length ?old"
    by linarith
  then show ?thesis
  proof cases
    case ins
    from GenerateOperation_insert [OF ins, of pos cid] assms obtain k where
      "k \<le> length ?old" "Type op0 = OpInsert" "Position op0 = int k"
      by auto
    then have "Type ?op = OpInsert" "0 \<le> Position ?op" "Position ?op \<le> int (length ?old)"
      by simp_all
    then show ?thesis by (simp add: Apply_insert_ok)
  next
    case del
    from GenerateOperation_delete [OF del, of pos cid] assms obtain k where
      "k \<le> length new" "Type op0 = OpDelete" "Position op0 = int k"
      "Length op0 = int (length ?old) - int (length new)"
      by auto
    with del have "Type ?op = OpDelete" "0 \<le> Position ?op" "0 \<le> Length ?op"
      "Position ?op + Length ?op \<le> int (length ?old)"
      by simp_all
    then show ?thesis by (simp add: Apply_delete_ok)
  next
    case same
    with assms have "op0 = RetainOp 0"
      by (simp add: GenerateOperation_retain)
    then have "Type ?op = OpRetain"
      by (simp add: RetainOp_def)
    then show ?thesis by (simp add: Apply_retain)
  qed
qed

lemma GenerateOperation_returns: "\<exists>op. GenerateOperation old new pos cid = Returns op"
proof -
  consider (ins) "length old < length new" | (del) "length new < length old"
    | (same) "length new = length old"
    by linarith
  then show ?thesis
  proof cases
    case ins
    from GenerateOperation_insert [OF ins, of pos cid] show ?thesis by blast
  next
    case del
    from GenerateOperation_delete [OF del, of pos cid] show ?thesis by blast
  next
    case same
    then show ?thesis by (simp add: GenerateOperation_retain)
  qed
qed

lemma ProcessTextUpdate_succeeds:
  assumes "lastContent m = Document.Content (document m)" and "PendingOps (document m) = []"
  shows "\<exists>m' content version.
     ProcessTextUpdate m c new v = Returns (m', content, version, None) \<and>
     lastContent m' = Document.Content (document m') \<and> PendingOps (document m') = []"
proof -
  from GenerateOperation_returns obtain op0 where
    g: "GenerateOperation (Document.Content (document m)) new 0 c = Returns op0"
    by blast
  let ?op = "op0\<lparr>Operation.Version := v\<rparr>"
  have r: "rebasedOperation m c new v = Returns ?op"
    using g assms by (simp add: rebasedOperation_def TransformAgainstHistory_def Let_def)
  from Apply_generated [OF g] obtain d' where a: "Apply (document m) ?op = Returns (d', None)"
    by blast
  from Apply_pending [OF a] assms(2) have "PendingOps d' = []"
    by simp
  with r a show ?thesis
    by (simp add: ProcessTextUpdate_def)
qed

lemma ProcessAll_succeeds:
  assumes "lastContent m = Document.Content (document m)" and "PendingOps (document m) = []"
  shows "\<exists>m'. ProcessAll m us = Returns m' \<and>
     lastContent m' = Document.Content (document m') \<and> PendingOps (document m') = []"
  using assms
proof (induction us arbitrary: m)
  case Nil
  then show ?case by simp
next
  case (Cons u us)
  obtain c new v where u: "u = (c, new, v)" by (cases u) auto
  from ProcessTextUpdate_succeeds [OF Cons.prems, of c new v] obtain m1 content version where
    1: "ProcessTextUpdate m c new v = Returns (m1, content, version, None)"
    and i: "lastContent m1 = Document.Content (document m1)" "PendingOps (document m1) = []"
    by blast
  from Cons.IH [OF i] 1 u show ?case by simp
qed

lemma reachable_update_never_fails:
  assumes "ProcessAll (NewOTManager docID) us = Returns m"
  shows "\<exists>m' content version. ProcessTextUpdate m c new v = Returns (m', content, version, None)"
proof -
  have "lastContent (NewOTManager docID) = Document.Content (document (NewOTManager docID))"
    "PendingOps (document (NewOTManager docID)) = []"
    by (simp_all add: NewOTManager_def NewDocument_def)
  from ProcessAll_succeeds [OF this, of us] assms have
    "lastContent m = Document.Content (document m)" "PendingOps (document m) = []"
    by simp_all
  from ProcessTextUpdate_succeeds [OF this, of c new v] show ?thesis by blast
qed

section \<open>A failed apply\<close>

text \<open>
  C8 fails on the code. The guard of a Delete is \<open>op.Position < 0 ||
  op.Position+op.Length > len(d.Content)\<close>. Unlike the guard of an Insert, it does not
  compare the position with the length of the content, it does not look at the sign
  of the length, and its sum wraps. A Delete that starts beyond the content with a
  negative length, a Delete whose position and length sum beyond \<open>MaxInt64\<close>, and the
  Delete of length -1 that \<open>Transform\<close> returns for a delete inside another, all pass the
  guard; the slice expressions then panic and \<open>Apply\<close> returns no error. The Insert
  beyond the content is refused with an error and the document as it was.
\<close>

theorem failed_delete_panics:
  "Apply (documentWith ''abc'') (DeleteOp 5 (- 3) ''a'' 0) = Panics
   \<and> Apply (documentWith ''abc'') (DeleteOp 9223372036854775807 1 ''a'' 0) = Panics
   \<and> Transform (DeleteOp 0 4 ''a'' 0) (DeleteOp 1 2 ''b'' 0) =
       (DeleteOp 0 1 ''a'' 0, DeleteOp 0 (- 1) ''b'' 0)
   \<and> Apply (documentWith ''ef'') (DeleteOp 0 (- 1) ''b'' 0) = Panics
   \<and> Apply (documentWith ''abc'') (InsertOp 4 ''x'' ''a'' 0) =
       Returns (documentWith ''abc'', Some (InvalidInsertPosition 4 3))"
  by (simp add: Apply_def add64_def slice_def Transform_def transformDeleteDelete_def
      DeleteOp_def InsertOp_def documentWith_def NewDocument_def Let_def)

text \<open>What the code does keep: whenever \<open>Apply\<close> returns an error the document is
  unchanged (\<open>Apply_error_unchanged\<close>), and \<open>ProcessTextUpdate\<close> then returns that error
  with the manager unchanged. From a manager reached by \<open>ProcessTextUpdate\<close> calls that
  branch is never taken (\<open>reachable_update_never_fails\<close>), since the operation comes
  from the diff against the content it is applied to.\<close>

lemma ProcessTextUpdate_error:
  assumes "rebasedOperation m c new v = Returns op"
    and "Apply (document m) op = Returns (d, Some e)"
  shows "ProcessTextUpdate m c new v =
     Returns (m, Document.Content (document m), Document.Version (document m), Some e)"
proof -
  have "d = document m"
    using assms(2) by (rule Apply_error_unchanged)
  then show ?thesis
    using assms by (simp add: ProcessTextUpdate_def)
qed

section \<open>Overlapping deletes\<close>

text \<open>
  C5, as stated, fails: the claim leaves the leading delete's length unchanged. For
  \<open>a\<close> deleting \<open>[0, 3)\<close> and \<open>b\<close> deleting \<open>[2, 4)\<close> the overlap is 1 and \<open>Transform\<close>
  takes it from both lengths: the leading delete comes back with length 2.
\<close>

theorem overlap_shortens_leading_delete:
  "Transform (DeleteOp 0 3 ''a'' 0) (DeleteOp 2 2 ''b'' 0) =
     (DeleteOp 0 2 ''a'' 0, DeleteOp 0 1 ''b'' 0)
   \<and> Length (fst (Transform (DeleteOp 0 3 ''a'' 0) (DeleteOp 2 2 ''b'' 0))) \<noteq>
      Length (DeleteOp 0 3 ''a'' 0)"
  by (simp add: Transform_def transformDeleteDelete_def DeleteOp_def)

text \<open>When one delete lies inside the other, the code's overlap (from the start of the
  trailing delete to the end of the leading one) is not \<open>min(end_a, end_b) -
  max(pos_a, pos_b)\<close>, and the trailing delete gets a negative length.\<close>

lemma contained_delete_negative_length:
  "Transform (DeleteOp 0 4 ''a'' 0) (DeleteOp 1 2 ''b'' 0) =
     (DeleteOp 0 1 ''a'' 0, DeleteOp 0 (-1) ''b'' 0)"
  by (simp add: Transform_def transformDeleteDelete_def DeleteOp_def)

lemma Apply_delete_nat:
  assumes "Type x = OpDelete" "Position x = int p" "Length x = int n"
    and "p + n \<le> length (Document.Content d)"
  shows "Apply d x = Returns (acknowledge (d\<lparr>Document.Content :=
       take p (Document.Content d) @ drop (p + n) (Document.Content d)\<rparr>) x, None)"
proof -
  have "nat (Position x) = p" "nat (Position x + Length x) = p + n"
    using assms by (simp_all add: nat_add_distrib)
  moreover have "Apply d x = Returns (acknowledge (d\<lparr>Document.Content :=
       take (nat (Position x)) (Document.Content d) @
       drop (nat (Position x + Length x)) (Document.Content d)\<rparr>) x, None)"
    by (rule Apply_delete_ok) (use assms in simp_all)
  ultimately show ?thesis by simp
qed

lemma delete_then_delete:
  assumes "Type x = OpDelete" "Position x = int px" "Length x = int lx"
    and "Type y = OpDelete" "Position y = int py" "Length y = int ly"
    and "px + lx \<le> length (Document.Content d)"
    and "py + ly + lx \<le> length (Document.Content d)"
  shows "contentAfter (ApplyAll d [x, y]) =
     Some (take py (take px (Document.Content d) @ drop (px + lx) (Document.Content d)) @
           drop (py + ly) (take px (Document.Content d) @ drop (px + lx) (Document.Content d)))"
proof -
  let ?S = "Document.Content d"
  let ?S1 = "take px ?S @ drop (px + lx) ?S"
  let ?d1 = "acknowledge (d\<lparr>Document.Content := ?S1\<rparr>) x"
  have 1: "Apply d x = Returns (?d1, None)"
    by (rule Apply_delete_nat) (use assms in simp_all)
  have c1: "Document.Content ?d1 = ?S1"
    by (simp add: acknowledge_def)
  have len: "length ?S1 = length ?S - lx"
    using assms(7) by simp
  have 2: "Apply ?d1 y = Returns (acknowledge (?d1\<lparr>Document.Content :=
       take py (Document.Content ?d1) @ drop (py + ly) (Document.Content ?d1)\<rparr>) y, None)"
  proof (rule Apply_delete_nat)
    show "py + ly \<le> length (Document.Content ?d1)"
      unfolding c1 len using assms(8) by simp
  qed (use assms in simp_all)
  show ?thesis
    unfolding ApplyAll_two [OF 1 2] by (simp add: acknowledge_def)
qed

lemma partial_overlap_lists:
  assumes "pa < pb" "pb < pa + la" "pa + la \<le> pb + lb" "pb + lb \<le> length S"
  shows "take pa (take pa S @ drop (pa + la) S) @
         drop (pa + (lb - (pa + la - pb))) (take pa S @ drop (pa + la) S) =
         take pa S @ drop (pb + lb) S"
    and "take pa (take pb S @ drop (pb + lb) S) @
         drop (pa + (la - (pa + la - pb))) (take pb S @ drop (pb + lb) S) =
         take pa S @ drop (pb + lb) S"
proof -
  have l: "length (take pa S) = pa" "length (take pb S) = pb"
    using assms by simp_all
  have e1: "pa + la + (lb - (pa + la - pb)) = pb + lb" using assms by simp
  have e2: "pa + (la - (pa + la - pb)) = pb" using assms by simp
  show "take pa (take pa S @ drop (pa + la) S) @
         drop (pa + (lb - (pa + la - pb))) (take pa S @ drop (pa + la) S) =
         take pa S @ drop (pb + lb) S"
    using l(1) e1 by (simp add: add.commute add.left_commute)
  have "take pa (take pb S) = take pa S" using assms by (simp add: min_def)
  then show "take pa (take pb S @ drop (pb + lb) S) @
         drop (pa + (la - (pa + la - pb))) (take pb S @ drop (pb + lb) S) =
         take pa S @ drop (pb + lb) S"
    unfolding e2 using l(2) assms by simp
qed

text \<open>
  C5, amended: for two Deletes \<open>a\<close> and \<open>b\<close> that overlap with \<open>a\<close> starting strictly
  first and \<open>b\<close> ending no earlier than \<open>a\<close> (\<open>pos_a < pos_b < end_a \<le> end_b\<close>),
  \<open>Transform\<close>, in either argument order, computes the overlap \<open>min(end_a, end_b) -
  max(pos_a, pos_b) = end_a - pos_b\<close>, subtracts it from the length of both deletes, and
  sets the trailing delete's position to the leading delete's position. When both are
  valid on the content, either order of application then leaves the content without
  \<open>[pos_a, end_b)\<close>.
\<close>

theorem partial_overlap_deletes:
  assumes "Type a = OpDelete" "Type b = OpDelete"
    and "Position a < Position b" "Position b < Position a + Length a"
    and "Position a + Length a \<le> Position b + Length b"
  shows "min (Position a + Length a) (Position b + Length b) - max (Position a) (Position b)
           = Position a + Length a - Position b
    \<and> Transform a b =
        (a\<lparr>Length := Length a - (Position a + Length a - Position b)\<rparr>,
         b\<lparr>Position := Position a, Length := Length b - (Position a + Length a - Position b)\<rparr>)
    \<and> Transform b a =
        (b\<lparr>Position := Position a, Length := Length b - (Position a + Length a - Position b)\<rparr>,
         a\<lparr>Length := Length a - (Position a + Length a - Position b)\<rparr>)
    \<and> (0 \<le> Position a \<and> Position b + Length b \<le> int (length (Document.Content d)) \<longrightarrow>
         contentAfter (ApplyAll d [a, snd (Transform a b)]) =
           Some (take (nat (Position a)) (Document.Content d) @
                 drop (nat (Position b + Length b)) (Document.Content d))
       \<and> contentAfter (ApplyAll d [b, fst (Transform a b)]) =
           Some (take (nat (Position a)) (Document.Content d) @
                 drop (nat (Position b + Length b)) (Document.Content d)))"
proof -
  let ?S = "Document.Content d"
  let ?o = "Position a + Length a - Position b"
  let ?a' = "a\<lparr>Length := Length a - ?o\<rparr>"
  let ?b' = "b\<lparr>Position := Position a, Length := Length b - ?o\<rparr>"
  have ov: "min (Position a + Length a) (Position b + Length b) - max (Position a) (Position b)
           = ?o"
    using assms by simp
  have tr: "Transform a b = (?a', ?b')" "Transform b a = (?b', ?a')"
    using assms by (simp_all add: Transform_def transformDeleteDelete_def Let_def)
  have conv: "contentAfter (ApplyAll d [a, snd (Transform a b)]) =
           Some (take (nat (Position a)) ?S @ drop (nat (Position b + Length b)) ?S)
       \<and> contentAfter (ApplyAll d [b, fst (Transform a b)]) =
           Some (take (nat (Position a)) ?S @ drop (nat (Position b + Length b)) ?S)"
    if v: "0 \<le> Position a" "Position b + Length b \<le> int (length ?S)"
  proof -
    define pa la pb lb where "pa = nat (Position a)" and "la = nat (Length a)"
      and "pb = nat (Position b)" and "lb = nat (Length b)"
    have n: "Position a = int pa" "Length a = int la" "Position b = int pb" "Length b = int lb"
      using assms v by (simp_all add: pa_def la_def pb_def lb_def)
    have o: "pa < pb" "pb < pa + la" "pa + la \<le> pb + lb" "pb + lb \<le> length ?S"
      using assms v unfolding n by linarith+
    have oo: "?o = int (pa + la - pb)"
      unfolding n using o by linarith
    have la': "Length ?a' = int (la - (pa + la - pb))"
      using o by (simp add: n)
    have lb': "Length ?b' = int (lb - (pa + la - pb))"
      using o by (simp add: n)
    have "contentAfter (ApplyAll d [a, ?b']) =
       Some (take pa (take pa ?S @ drop (pa + la) ?S) @
             drop (pa + (lb - (pa + la - pb))) (take pa ?S @ drop (pa + la) ?S))"
      by (rule delete_then_delete [where ly = "lb - (pa + la - pb)"])
         (use assms n o lb' in simp_all)
    also have "\<dots> = Some (take pa ?S @ drop (pb + lb) ?S)"
      using partial_overlap_lists(1) [OF o] by simp
    finally have 1: "contentAfter (ApplyAll d [a, ?b']) = Some (take pa ?S @ drop (pb + lb) ?S)" .
    have "contentAfter (ApplyAll d [b, ?a']) =
       Some (take pa (take pb ?S @ drop (pb + lb) ?S) @
             drop (pa + (la - (pa + la - pb))) (take pb ?S @ drop (pb + lb) ?S))"
      by (rule delete_then_delete [where ly = "la - (pa + la - pb)"])
         (use assms n o la' in simp_all)
    also have "\<dots> = Some (take pa ?S @ drop (pb + lb) ?S)"
      using partial_overlap_lists(2) [OF o] by simp
    finally have 2: "contentAfter (ApplyAll d [b, ?a']) = Some (take pa ?S @ drop (pb + lb) ?S)" .
    have e: "nat (Position a) = pa" "nat (Position b + Length b) = pb + lb"
      unfolding n by (simp_all add: nat_add_distrib)
    from 1 2 show ?thesis unfolding tr e by simp
  qed
  from ov tr conv show ?thesis by blast
qed

theorem partial_overlap_deletes_witness:
  "Transform (DeleteOp 0 3 ''a'' 0) (DeleteOp 2 2 ''b'' 0) =
     (DeleteOp 0 2 ''a'' 0, DeleteOp 0 1 ''b'' 0)
   \<and> Transform (DeleteOp 2 2 ''b'' 0) (DeleteOp 0 3 ''a'' 0) =
     (DeleteOp 0 1 ''b'' 0, DeleteOp 0 2 ''a'' 0)
   \<and> contentAfter (ApplyAll (documentWith ''abcdef'')
        [DeleteOp 0 3 ''a'' 0,
         snd (Transform (DeleteOp 0 3 ''a'' 0) (DeleteOp 2 2 ''b'' 0))]) = Some ''ef''
   \<and> contentAfter (ApplyAll (documentWith ''abcdef'')
        [DeleteOp 2 2 ''b'' 0,
         fst (Transform (DeleteOp 0 3 ''a'' 0) (DeleteOp 2 2 ''b'' 0))]) = Some ''ef''"
proof -
  let ?a = "DeleteOp 0 3 ''a'' 0" and ?b = "DeleteOp 2 2 ''b'' 0"
  let ?d = "documentWith ''abcdef''"
  have h: "Type ?a = OpDelete" "Type ?b = OpDelete" "Position ?a < Position ?b"
    "Position ?b < Position ?a + Length ?a"
    "Position ?a + Length ?a \<le> Position ?b + Length ?b"
    by (simp_all add: DeleteOp_def)
  have v: "0 \<le> Position ?a \<and> Position ?b + Length ?b \<le> int (length (Document.Content ?d))"
    by (simp add: DeleteOp_def documentWith_def)
  have rhs: "take (nat (Position ?a)) (Document.Content ?d) @
      drop (nat (Position ?b + Length ?b)) (Document.Content ?d) = ''ef''"
    by (simp add: DeleteOp_def documentWith_def)
  note t = partial_overlap_deletes [OF h, of ?d]
  from t have "Transform ?a ?b =
        (?a\<lparr>Length := Length ?a - (Position ?a + Length ?a - Position ?b)\<rparr>,
         ?b\<lparr>Position := Position ?a,
             Length := Length ?b - (Position ?a + Length ?a - Position ?b)\<rparr>)"
    "Transform ?b ?a =
        (?b\<lparr>Position := Position ?a,
             Length := Length ?b - (Position ?a + Length ?a - Position ?b)\<rparr>,
         ?a\<lparr>Length := Length ?a - (Position ?a + Length ?a - Position ?b)\<rparr>)"
    by blast+
  then have tr: "Transform ?a ?b = (DeleteOp 0 2 ''a'' 0, DeleteOp 0 1 ''b'' 0)"
    "Transform ?b ?a = (DeleteOp 0 1 ''b'' 0, DeleteOp 0 2 ''a'' 0)"
    by (simp_all add: DeleteOp_def)
  from t v have
    "contentAfter (ApplyAll ?d [?a, snd (Transform ?a ?b)]) = Some ''ef''"
    "contentAfter (ApplyAll ?d [?b, fst (Transform ?a ?b)]) = Some ''ef''"
    unfolding rhs by blast+
  with tr show ?thesis by blast
qed

section \<open>Swapping the arguments of \<open>Transform\<close>\<close>

text \<open>
  C6 fails on the code. Clients \<open>a\<close> and \<open>b\<close> both delete from position 0 of \<open>ab\<close>,
  \<open>a\<close> one byte and \<open>b\<close> two; both deletes are valid on \<open>ab\<close>. With equal positions
  \<open>transformDeleteDelete\<close> takes its last branch in either argument order and treats
  its second argument as the leading delete: the overlap is the whole length of the
  second argument, whichever it is. \<open>Transform(a, b)\<close> returns \<open>a\<close> with length -1 and \<open>b\<close>
  with length 0; \<open>Transform(b, a)\<close> returns \<open>b\<close> with length 1 and \<open>a\<close> with length 0,
  which is not the swapped pair.
\<close>

theorem same_start_deletes_not_mirrored:
  "contentAfter (Apply (documentWith ''ab'') (DeleteOp 0 1 ''a'' 0)) = Some ''b''
   \<and> contentAfter (Apply (documentWith ''ab'') (DeleteOp 0 2 ''b'' 0)) = Some []
   \<and> Transform (DeleteOp 0 1 ''a'' 0) (DeleteOp 0 2 ''b'' 0) =
       (DeleteOp 0 (- 1) ''a'' 0, DeleteOp 0 0 ''b'' 0)
   \<and> Transform (DeleteOp 0 2 ''b'' 0) (DeleteOp 0 1 ''a'' 0) =
       (DeleteOp 0 1 ''b'' 0, DeleteOp 0 0 ''a'' 0)
   \<and> Transform (DeleteOp 0 2 ''b'' 0) (DeleteOp 0 1 ''a'' 0) \<noteq>
       (snd (Transform (DeleteOp 0 1 ''a'' 0) (DeleteOp 0 2 ''b'' 0)),
        fst (Transform (DeleteOp 0 1 ''a'' 0) (DeleteOp 0 2 ''b'' 0)))"
  by (simp add: Transform_def transformDeleteDelete_def DeleteOp_def Apply_def add64_def
      slice_def documentWith_def NewDocument_def acknowledge_def Let_def)

section \<open>No echo to the originator\<close>

lemma setSend_other: "p \<noteq> c \<Longrightarrow> store (setSend h c ch) p = store h p"
  by (simp add: setSend_def)

lemma setSend_id: "clientId (store (setSend h c ch) p) = clientId (store h p)"
  by (simp add: setSend_def)

lemma documentLoop_skips:
  "documentLoop docID message ex cs h = Returns h' \<Longrightarrow>
   (\<forall>p. clientId (store h' p) = clientId (store h p)) \<and>
   (\<forall>p. clientId (store h p) = ex \<longrightarrow> store h' p = store h p)"
proof (induction cs arbitrary: h)
  case Nil
  then show ?case by simp
next
  case (Cons c cs)
  show ?case
  proof (cases "clientId (store h c) = ex")
    case True
    with Cons.prems have "documentLoop docID message ex cs h = Returns h'" by simp
    then show ?thesis by (rule Cons.IH)
  next
    case False
    from Cons.prems False obtain sent where s: "trySend (send (store h c)) message = Returns sent"
      by (cases "trySend (send (store h c)) message") auto
    show ?thesis
    proof (cases sent)
      case (Some ch)
      let ?h1 = "setSend h c ch"
      from Cons.prems False s Some have "documentLoop docID message ex cs ?h1 = Returns h'"
        by simp
      from Cons.IH [OF this] False show ?thesis
        by (metis setSend_id setSend_other)
    next
      case None
      from Cons.prems False s None obtain ch where
        c: "closeChan (send (store h c)) = Returns ch"
        by (cases "closeChan (send (store h c))") auto
      let ?h1 = "(setSend h c ch)
                 \<lparr>clients := removeAll c (clients h),
                  documentClients := (documentClients h)
                    (docID := map_option (removeAll c) (documentClients h docID))\<rparr>"
      from Cons.prems False s None c have "documentLoop docID message ex cs ?h1 = Returns h'"
        by simp
      from Cons.IH [OF this] have
        "(\<forall>p. clientId (store h' p) = clientId (store (setSend h c ch) p)) \<and>
         (\<forall>p. clientId (store (setSend h c ch) p) = ex \<longrightarrow> store h' p = store (setSend h c ch) p)"
        by simp
      with False show ?thesis
        by (metis setSend_id setSend_other)
    qed
  qed
qed

lemma allLoop_skips:
  "allLoop message ex cs h = Returns h' \<Longrightarrow>
   (\<forall>p. clientId (store h' p) = clientId (store h p)) \<and>
   (\<forall>p. clientId (store h p) = ex \<longrightarrow> store h' p = store h p)"
proof (induction cs arbitrary: h)
  case Nil
  then show ?case by simp
next
  case (Cons c cs)
  show ?case
  proof (cases "clientId (store h c) = ex")
    case True
    with Cons.prems have "allLoop message ex cs h = Returns h'" by simp
    then show ?thesis by (rule Cons.IH)
  next
    case False
    from Cons.prems False obtain sent where
      s: "trySend (send (store h c)) message = Returns sent"
      by (cases "trySend (send (store h c)) message") auto
    show ?thesis
    proof (cases sent)
      case (Some ch)
      from Cons.prems False s Some have
        "allLoop message ex cs (setSend h c ch) = Returns h'"
        by simp
      from Cons.IH [OF this] False show ?thesis
        by (metis setSend_id setSend_other)
    next
      case None
      from Cons.prems False s None obtain ch where
        c: "closeChan (send (store h c)) = Returns ch"
        by (cases "closeChan (send (store h c))") auto
      let ?h1 = "(setSend h c ch)\<lparr>clients := removeAll c (clients h)\<rparr>"
      from Cons.prems False s None c have "allLoop message ex cs ?h1 = Returns h'"
        by simp
      from Cons.IH [OF this] have
        "(\<forall>p. clientId (store h' p) = clientId (store (setSend h c ch) p)) \<and>
         (\<forall>p. clientId (store (setSend h c ch) p) = ex \<longrightarrow>
              store h' p = store (setSend h c ch) p)"
        by simp
      with False show ?thesis
        by (metis setSend_id setSend_other)
    qed
  qed
qed

lemma broadcastToDocument_skips:
  assumes "broadcastToDocument h docID message ex = Returns h'"
    and "clientId (store h p) = ex"
  shows "store h' p = store h p"
proof (cases "documentClients h docID")
  case None
  with assms show ?thesis by (simp add: broadcastToDocument_def)
next
  case (Some cs)
  with assms(1) have "documentLoop docID message ex cs h = Returns h'"
    by (simp add: broadcastToDocument_def)
  from documentLoop_skips [OF this] assms(2) show ?thesis by blast
qed

lemma broadcastToAll_skips:
  assumes "broadcastToAll h message ex = Returns h'"
    and "clientId (store h p) = ex"
  shows "store h' p = store h p"
  using allLoop_skips [of message ex "clients h" h h'] assms
  by (simp add: broadcastToAll_def)

lemma handleBroadcast_skips:
  assumes "unmarshal message = Some msg"
    and "handleBroadcast unmarshal h message = Returns h'"
    and "clientId (store h p) = msgClientID msg"
  shows "store h' p = store h p"
proof -
  from assms(1,2) have
    "broadcastToDocument h (msgDocumentID msg) message (msgClientID msg) = Returns h' \<or>
     broadcastToAll h message (msgClientID msg) = Returns h' \<or> h' = h"
    by (simp add: handleBroadcast_def split: if_splits)
  then show ?thesis
    using assms(3) broadcastToDocument_skips broadcastToAll_skips by blast
qed

text \<open>
  C9: the fan-out of \<open>broadcastToDocument\<close> changes nothing at a client whose
  identifier is the excluded one, so its send queue gets no frame; \<open>handleBroadcast\<close>
  excludes the \<open>clientId\<close> carried in the frame, for \<open>text_update\<close>, \<open>cursor_position\<close>,
  \<open>selection_change\<close>, the typing frames and every other type; and the \<open>clientId\<close>
  of a frame that \<open>processMessage\<close> has stamped is the identifier of the client it came
  from. A client therefore never finds a frame of its own in its queue.
\<close>

theorem originator_receives_no_echo:
  "(broadcastToDocument h docID message ex = Returns h' \<and> clientId (store h p) = ex \<longrightarrow>
      send (store h' p) = send (store h p))
   \<and> (unmarshal message = Some msg \<and> handleBroadcast unmarshal h message = Returns h'' \<and>
      clientId (store h q) = msgClientID msg \<longrightarrow>
      send (store h'' q) = send (store h q))
   \<and> msgClientID (stamp c m) = clientId c"
proof -
  have "broadcastToDocument h docID message ex = Returns h' \<Longrightarrow>
      clientId (store h p) = ex \<Longrightarrow> send (store h' p) = send (store h p)"
    by (simp add: broadcastToDocument_skips)
  moreover have "unmarshal message = Some msg \<Longrightarrow>
      handleBroadcast unmarshal h message = Returns h'' \<Longrightarrow>
      clientId (store h q) = msgClientID msg \<Longrightarrow> send (store h'' q) = send (store h q)"
    by (simp add: handleBroadcast_skips)
  moreover have "msgClientID (stamp c m) = clientId c"
    by (simp add: stamp_def)
  ultimately show ?thesis by blast
qed

lemma twoClients_broadcast:
  "broadcastToDocument twoClients ''d'' ''frame'' ''aaaa1111'' =
     Returns (setSend twoClients 2 (emptyChan\<lparr>buffer := [''frame'']\<rparr>))"
  by (simp add: broadcastToDocument_def twoClients_def trySend_def emptyChan_def setSend_def)

theorem originator_receives_no_echo_witness:
  "broadcastToDocument twoClients ''d'' ''frame'' ''aaaa1111'' =
     Returns (setSend twoClients 2 (emptyChan\<lparr>buffer := [''frame'']\<rparr>))
   \<and> handleBroadcast (\<lambda>frame. Some textUpdateFromFirst) twoClients ''frame'' =
     Returns (setSend twoClients 2 (emptyChan\<lparr>buffer := [''frame'']\<rparr>))
   \<and> clientId (store twoClients 1) = msgClientID textUpdateFromFirst
   \<and> buffer (send (store (setSend twoClients 2 (emptyChan\<lparr>buffer := [''frame'']\<rparr>)) 1)) = []
   \<and> buffer (send (store (setSend twoClients 2 (emptyChan\<lparr>buffer := [''frame'']\<rparr>)) 2)) =
       [''frame'']"
proof -
  let ?h' = "setSend twoClients 2 (emptyChan\<lparr>buffer := [''frame'']\<rparr>)"
  have b: "broadcastToDocument twoClients ''d'' ''frame'' ''aaaa1111'' = Returns ?h'"
    by (rule twoClients_broadcast)
  have hb: "handleBroadcast (\<lambda>frame. Some textUpdateFromFirst) twoClients ''frame'' =
      Returns ?h'"
    using b by (simp add: handleBroadcast_def textUpdateFromFirst_def)
  have i: "clientId (store twoClients 1) = ''aaaa1111''"
    "clientId (store twoClients 1) = msgClientID textUpdateFromFirst"
    by (simp_all add: twoClients_def textUpdateFromFirst_def)
  note t = originator_receives_no_echo
    [of twoClients "''d''" "''frame''" "''aaaa1111''" ?h' 1
        "\<lambda>frame. Some textUpdateFromFirst" textUpdateFromFirst ?h' 1]
  from t b hb i have "send (store ?h' 1) = send (store twoClients 1)"
    by blast
  then have 1: "buffer (send (store ?h' 1)) = []"
    by (simp add: twoClients_def emptyChan_def)
  have 2: "buffer (send (store ?h' 2)) = [''frame'']"
    by (simp add: setSend_def)
  from b hb i 1 2 show ?thesis by blast
qed

end
